theory Spec2Isabelle
  imports Complex_Main "HOL-Library.AList" "HOL-Library.Multiset"
begin

section \<open>Strings and numbers of the source language\<close>

text \<open>
  Strings are lists of 8-bit characters. The functions below are the string methods the
  source calls, on that alphabet: \<open>toLowerCase\<close> maps the letters A to Z and leaves
  every other character alone.

  A number of the language is a double. It is modelled by its exact value, a rational,
  with \<open>2 ^ 1024\<close> and \<open>- 2 ^ 1024\<close> standing for the two infinities, as in the
  language standard's definition of the Number value for a real \<open>x\<close>. The numbers of a
  payload are the doubles \<open>JSON.parse\<close> has produced. An arithmetic operation of the
  source is the exact operation followed by \<open>double_of\<close>, the rounding to the nearest
  double, ties to the even significand. Comparisons are exact, and the difference of two
  doubles has the sign of their exact difference, which is all a sort comparator uses.
  \<open>Math.round\<close> is exact on a double: it is \<open>round\<close>. Where the source can
  compute the value NaN the type \<open>number\<close> is used.
\<close>

datatype number = Num rat | NaN

text \<open>
  The exponent of the binade of a positive \<open>x\<close> below \<open>2 ^ 1024\<close>: the greatest
  \<open>e\<close> from \<open>- 1022\<close> to \<open>1023\<close> with \<open>2 ^ e \<le> x\<close>, and \<open>- 1022\<close> in the
  subnormal range.
\<close>

definition exponent :: "rat \<Rightarrow> int" where
  "exponent x =
     (if x < 2 powi (- 1022) then - 1022 else Max {e \<in> {- 1022..1023}. 2 powi e \<le> x})"

definition round_half_even :: "rat \<Rightarrow> int" where
  "round_half_even y =
     (let n = \<lfloor>y\<rfloor>; d = y - of_int n
      in if d < 1 / 2 then n else if 1 / 2 < d then n + 1 else if even n then n else n + 1)"

text \<open>
  The Number value for \<open>x\<close>: the multiple of \<open>2 ^ (exponent - 52)\<close> nearest to
  \<open>x\<close>. From \<open>2 ^ 1024 - 2 ^ 970\<close> on the result is \<open>2 ^ 1024\<close>, that is
  \<open>Infinity\<close>.
\<close>

definition double_of :: "rat \<Rightarrow> rat" where
  "double_of x =
     (if 2 ^ 1024 \<le> \<bar>x\<bar> then sgn x * 2 ^ 1024
      else
        let q = 2 powi (exponent \<bar>x\<bar> - 52)
        in sgn x * of_int (round_half_even (\<bar>x\<bar> / q)) * q)"

text \<open>\<open>Number.isFinite(v)\<close> on a number that is not NaN.\<close>

definition Number_isFinite :: "rat \<Rightarrow> bool" where
  "Number_isFinite v = (\<bar>v\<bar> < 2 ^ 1024)"

definition lower_char :: "char \<Rightarrow> char" where
  "lower_char c =
     (case map_of (zip ''ABCDEFGHIJKLMNOPQRSTUVWXYZ'' ''abcdefghijklmnopqrstuvwxyz'') c of
        None \<Rightarrow> c
      | Some l \<Rightarrow> l)"

definition toLowerCase :: "string \<Rightarrow> string" where
  "toLowerCase s = map lower_char s"

text \<open>\<open>s.replace(",", ".")\<close>: a string pattern replaces the first occurrence only.\<close>

fun replace_comma :: "string \<Rightarrow> string" where
  "replace_comma [] = []"
| "replace_comma (c # cs) = (if c = CHR '','' then CHR ''.'' # cs else c # replace_comma cs)"

fun startsWith :: "string \<Rightarrow> string \<Rightarrow> bool" where
  "startsWith s [] = True"
| "startsWith [] (p # ps) = False"
| "startsWith (c # cs) (p # ps) = (c = p \<and> startsWith cs ps)"

fun includes_str :: "string \<Rightarrow> string \<Rightarrow> bool" where
  "includes_str [] sub = (sub = [])"
| "includes_str (c # cs) sub = (startsWith (c # cs) sub \<or> includes_str cs sub)"

definition isDigit :: "char \<Rightarrow> bool" where
  "isDigit c = (c \<in> set ''0123456789'')"

definition isDigitOrDot :: "char \<Rightarrow> bool" where
  "isDigitOrDot c = (isDigit c \<or> c = CHR ''.'')"

text \<open>
  \<open>s.match(/([\d.]+)/)\<close>: the leftmost, longest run of digits and periods; \<open>None\<close> is
  the source's \<open>null\<close> (no such character in the string).
\<close>

definition match_digits :: "string \<Rightarrow> string option" where
  "match_digits s =
     (let rest = dropWhile (\<lambda>c. \<not> isDigitOrDot c) s
      in if rest = [] then None else Some (takeWhile isDigitOrDot rest))"

definition digit_value :: "char \<Rightarrow> int" where
  "digit_value c = of_char c - 48"

definition digits_value :: "string \<Rightarrow> int" where
  "digits_value s = foldl (\<lambda>acc c. 10 * acc + digit_value c) 0 s"

text \<open>
  \<open>Number(s)\<close> on the strings the match above can return, which hold digits and periods
  only: digits, then optionally a period and digits, with a digit on at least one side of
  the period; the result is the double nearest to the decimal value, \<open>Infinity\<close> for a
  value too large. Everything else (a lone period, two periods) is NaN. The empty string,
  which the match never returns, converts to 0.
\<close>

definition Number :: "string \<Rightarrow> number" where
  "Number s =
     (let ip = takeWhile isDigit s; rest = dropWhile isDigit s
      in case rest of
           [] \<Rightarrow> Num (double_of (of_int (digits_value ip)))
         | c # fp \<Rightarrow>
             if c = CHR ''.'' \<and> list_all isDigit fp \<and> (ip \<noteq> [] \<or> fp \<noteq> [])
             then Num (double_of
                         (of_int (digits_value ip) + of_int (digits_value fp) / 10 ^ length fp))
             else NaN)"

text \<open>
  \<open>xs.sort((a, b) => key(b) - key(a))\<close>: the sort of the language is stable, so the
  result is the stable sort by descending key.
\<close>

definition sort_desc :: "('a \<Rightarrow> rat) \<Rightarrow> 'a list \<Rightarrow> 'a list" where
  "sort_desc key xs = sort_key (\<lambda>a. - key a) xs"


section \<open>The recommendation merger (client page)\<close>

text \<open>
  An element of the type \<open>Recommendations\<close>. An optional field that is absent is
  \<open>None\<close>; \<open>savingsMs\<close> is \<open>Some v\<close> exactly when \<open>typeof item.savingsMs\<close> is
  \<open>"number"\<close>.
\<close>

record Recommendation =
  title :: string
  description :: "string option"
  savings :: "string option"
  savingsMs :: "rat option"

definition getSavingsMs :: "Recommendation \<Rightarrow> rat" where
  "getSavingsMs item =
     (case savingsMs item of
        Some v \<Rightarrow> v
      | None \<Rightarrow>
          (case savings item of
             None \<Rightarrow> 0
           | Some s \<Rightarrow>
               if s = [] then 0
               else
                 let normalized = toLowerCase (replace_comma s)
                 in case match_digits normalized of
                      None \<Rightarrow> 0
                    | Some m \<Rightarrow>
                        (case Number m of
                           NaN \<Rightarrow> 0
                         | Num v \<Rightarrow>
                             if \<not> Number_isFinite v then 0
                             else if includes_str normalized ''ms'' then v
                             else if includes_str normalized ''s'' then double_of (v * 1000)
                             else v)))"

text \<open>
  The \<open>Map\<close> keyed by title keeps its entries in insertion order, and \<open>set\<close> on a key
  that is present replaces the value in place: an association list with
  \<open>AList.update\<close>. \<open>merge_step\<close> is the body of the \<open>forEach\<close>.
\<close>

definition merge_step ::
  "(string \<times> Recommendation) list \<Rightarrow> Recommendation \<Rightarrow> (string \<times> Recommendation) list" where
  "merge_step byTitle item =
     (case map_of byTitle (title item) of
        None \<Rightarrow> AList.update (title item) item byTitle
      | Some existing \<Rightarrow>
          if getSavingsMs item > getSavingsMs existing
          then AList.update (title item) item byTitle
          else byTitle)"

definition mergeRecommendations ::
  "Recommendation list \<Rightarrow> Recommendation list \<Rightarrow> Recommendation list" where
  "mergeRecommendations mobile desktop =
     take 5 (sort_desc getSavingsMs (map snd (foldl merge_step [] (mobile @ desktop))))"


section \<open>The upstream payload\<close>

text \<open>
  A JSON field that the source tests against both \<open>undefined\<close> and \<open>null\<close>. A field
  that the source only tests for presence is an \<open>option\<close>.
\<close>

datatype 'a field = Undefined | Null | Value 'a

text \<open>\<open>x ?? d\<close>\<close>

fun nullish_or :: "'a field \<Rightarrow> 'a \<Rightarrow> 'a" where
  "nullish_or Undefined d = d"
| "nullish_or Null d = d"
| "nullish_or (Value v) d = v"

text \<open>\<open>x < 1\<close> on a field: \<open>undefined\<close> converts to NaN and \<open>null\<close> to 0.\<close>

fun less_than_1 :: "rat field \<Rightarrow> bool" where
  "less_than_1 Undefined = False"
| "less_than_1 Null = True"
| "less_than_1 (Value v) = (v < 1)"

record AuditDetails =
  overallSavingsMs :: "rat option"

record PageSpeedAudit =
  audit_id :: string
  title :: string
  description :: "string option"
  score :: "rat field"
  displayValue :: "string option"
  numericValue :: "rat option"
  details :: "AuditDetails option"

record AuditRef =
  ref_id :: string
  weight :: rat

record Performance =
  score :: "rat field"
  auditRefs :: "AuditRef list option"

record Categories =
  performance :: "Performance option"

text \<open>
  \<open>audits\<close> is a JSON object: its properties in enumeration order, with distinct keys.
  \<open>audits[k]\<close> is \<open>map_of\<close>, \<open>Object.values(audits)\<close> is \<open>map snd\<close>.
\<close>

record LighthouseResult =
  categories :: "Categories option"
  audits :: "(string \<times> PageSpeedAudit) list option"

record PageSpeedResponse =
  lighthouseResult :: "LighthouseResult option"


section \<open>The simple extractor (pagespeed route)\<close>

record Metrics =
  fcp :: string
  lcp :: string
  tbt :: string
  cls :: string

text \<open>
  The route returns recommendations with a title and a description only: the two savings
  fields of \<open>Recommendation\<close> are absent.
\<close>

record ApiResult =
  score :: int
  metrics :: Metrics
  recommendations :: "Recommendation list"

text \<open>\<open>payload.lighthouseResult?.categories?.performance\<close>\<close>

definition performance_of :: "PageSpeedResponse \<Rightarrow> Performance option" where
  "performance_of payload =
     (case lighthouseResult payload of
        None \<Rightarrow> None
      | Some lighthouse \<Rightarrow>
          (case categories lighthouse of None \<Rightarrow> None | Some cats \<Rightarrow> performance cats))"

text \<open>\<open>payload.lighthouseResult?.audits ?? {}\<close>\<close>

definition audits_of :: "PageSpeedResponse \<Rightarrow> (string \<times> PageSpeedAudit) list" where
  "audits_of payload =
     (case lighthouseResult payload of
        None \<Rightarrow> []
      | Some lighthouse \<Rightarrow> (case audits lighthouse of None \<Rightarrow> [] | Some a \<Rightarrow> a))"

text \<open>\<open>audits[id]?.displayValue ?? "--"\<close>\<close>

definition metric_display :: "(string \<times> PageSpeedAudit) list \<Rightarrow> string \<Rightarrow> string" where
  "metric_display auds k =
     (case map_of auds k of
        None \<Rightarrow> ''--''
      | Some audit \<Rightarrow> (case displayValue audit of None \<Rightarrow> ''--'' | Some v \<Rightarrow> v))"

text \<open>\<open>.filter((audit) => Boolean(audit?.title))\<close> on the looked-up audits.\<close>

fun titled :: "PageSpeedAudit option list \<Rightarrow> PageSpeedAudit list" where
  "titled [] = []"
| "titled (None # xs) = titled xs"
| "titled (Some audit # xs) =
     (if PageSpeedAudit.title audit \<noteq> [] then audit # titled xs else titled xs)"

definition numeric_or_0 :: "PageSpeedAudit \<Rightarrow> rat" where
  "numeric_or_0 audit = (case numericValue audit of None \<Rightarrow> 0 | Some v \<Rightarrow> v)"

text \<open>The chain from \<open>auditRefs\<close> to \<open>.slice(0, 3)\<close>: the audits that are reported.\<close>

definition simple_selected :: "PageSpeedResponse \<Rightarrow> PageSpeedAudit list" where
  "simple_selected payload =
     (case performance_of payload of
        None \<Rightarrow> []
      | Some perf \<Rightarrow>
          (case auditRefs perf of
             None \<Rightarrow> []
           | Some refs \<Rightarrow>
               take 3
                 (sort_desc numeric_or_0
                    (filter (\<lambda>audit. nullish_or (PageSpeedAudit.score audit) 1 < 1)
                       (titled (map (\<lambda>ref. map_of (audits_of payload) (ref_id ref)) refs))))))"

definition simple_recommendation :: "PageSpeedAudit \<Rightarrow> Recommendation" where
  "simple_recommendation audit =
     \<lparr>Recommendation.title = PageSpeedAudit.title audit,
      Recommendation.description = PageSpeedAudit.description audit,
      savings = None, savingsMs = None\<rparr>"

definition extractResult :: "PageSpeedResponse \<Rightarrow> ApiResult" where
  "extractResult payload =
     \<lparr>ApiResult.score =
        round
          (double_of
             ((case performance_of payload of
                 None \<Rightarrow> 0
               | Some perf \<Rightarrow> nullish_or (Performance.score perf) 0) * 100)),
      metrics =
        \<lparr>fcp = metric_display (audits_of payload) ''first-contentful-paint'',
         lcp = metric_display (audits_of payload) ''largest-contentful-paint'',
         tbt = metric_display (audits_of payload) ''total-blocking-time'',
         cls = metric_display (audits_of payload) ''cumulative-layout-shift''\<rparr>,
      recommendations = map simple_recommendation (simple_selected payload)\<rparr>"


section \<open>Errors, upstream calls and responses\<close>

text \<open>
  Every value thrown in the two routes is an \<open>Error\<close> object: one the source builds with
  a message of its own, or a \<open>TypeError\<close> (a property read on \<open>undefined\<close>, a failed
  \<open>fetch\<close>) or \<open>SyntaxError\<close> (a body that is not JSON) of the runtime, whose message
  text the source does not fix.
\<close>

datatype thrown = Error string | TypeError | SyntaxError

datatype message = Text string | RuntimeText

fun message_of :: "thrown \<Rightarrow> message" where
  "message_of (Error m) = Text m"
| "message_of TypeError = RuntimeText"
| "message_of SyntaxError = RuntimeText"

datatype strategy = Mobile | Desktop

fun strategy_name :: "strategy \<Rightarrow> string" where
  "strategy_name Mobile = ''mobile''"
| "strategy_name Desktop = ''desktop''"

text \<open>
  An upstream call is the request URL the source builds, kept as its query parameters.
  What the third party answers is a parameter of the model: a function from calls to
  outcomes.
\<close>

record upstream_request =
  req_url :: string
  req_key :: string
  req_strategy :: strategy
  req_category :: "string option"

record http_response =
  status :: nat
  body_text :: string
  body_json :: "PageSpeedResponse option"

datatype fetch_outcome = NetworkFailure | Responded http_response

type_synonym upstream = "upstream_request \<Rightarrow> fetch_outcome"

text \<open>\<open>response.ok\<close>\<close>

definition ok :: "http_response \<Rightarrow> bool" where
  "ok r = (200 \<le> status r \<and> status r \<le> 299)"

text \<open>
  \<open>Promise.all\<close> of the two calls: both have been started; the result is the pair of
  values when both succeed and otherwise the error of the call that fails first. Which
  one that is when both fail is decided by the order in which they settle.
\<close>

datatype settle_order = MobileFirst | DesktopFirst

fun Promise_all :: "settle_order \<Rightarrow> thrown + 'a \<Rightarrow> thrown + 'a \<Rightarrow> thrown + 'a \<times> 'a" where
  "Promise_all order (Inr m) (Inr d) = Inr (m, d)"
| "Promise_all order (Inl e) (Inr d) = Inl e"
| "Promise_all order (Inr m) (Inl e) = Inl e"
| "Promise_all MobileFirst (Inl e) (Inl e') = Inl e"
| "Promise_all DesktopFirst (Inl e) (Inl e') = Inl e'"

text \<open>\<open>NextResponse.json(body, { status })\<close>; the status is 200 when none is given.\<close>

datatype 'r json_body = ErrorBody message | ResultBody 'r

datatype 'r response = NextResponse nat "'r json_body"

fun status_of :: "'r response \<Rightarrow> nat" where
  "status_of (NextResponse st b) = st"

text \<open>
  The body of a POST request: not JSON at all, the JSON value \<open>null\<close>, or an object with
  the two fields the routes read. A field that is absent or \<open>null\<close> is \<open>None\<close>.
\<close>

record RequestBody =
  url :: "string option"
  email :: "string option"

datatype request = NotJson | JsonNull | Body RequestBody

text \<open>\<open>!x\<close> on an optional string\<close>

fun falsy :: "string option \<Rightarrow> bool" where
  "falsy None = True"
| "falsy (Some s) = (s = [])"

definition isWhiteSpace :: "char \<Rightarrow> bool" where
  "isWhiteSpace c = ((of_char c :: nat) \<in> {9, 10, 11, 12, 13, 32, 160})"

definition trim :: "string \<Rightarrow> string" where
  "trim s = rev (dropWhile isWhiteSpace (rev (dropWhile isWhiteSpace s)))"

text \<open>Decimal notation of an integer, as a template literal prints it (below \<open>10^21\<close>).\<close>

fun show_nat :: "nat \<Rightarrow> string" where
  "show_nat n =
     (if n < 10 then [''0123456789'' ! n] else show_nat (n div 10) @ [''0123456789'' ! (n mod 10)])"

declare show_nat.simps [simp del]

definition show_int :: "int \<Rightarrow> string" where
  "show_int i = (if i < 0 then CHR ''-'' # show_nat (nat (- i)) else show_nat (nat i))"


section \<open>The pagespeed route\<close>

definition key_missing_message :: string where
  "key_missing_message = ''GOOGLE_PAGESPEED_API_KEY n'' @ [CHR 0xE3] @ ''o configurada.''"

definition invalid_url_message :: string where
  "invalid_url_message = ''Informe uma URL v'' @ [CHR 0xE1] @ ''lida com http ou https.''"

text \<open>
  \<open>fetchPageSpeed\<close>, with the environment variable and the upstream as parameters. The
  second component lists the upstream calls made.
\<close>

definition fetchPageSpeed ::
  "string option \<Rightarrow> upstream \<Rightarrow> string \<Rightarrow> strategy
     \<Rightarrow> (thrown + PageSpeedResponse) \<times> upstream_request list" where
  "fetchPageSpeed env up u strat =
     (case env of
        None \<Rightarrow> (Inl (Error key_missing_message), [])
      | Some key \<Rightarrow>
          if key = [] then (Inl (Error key_missing_message), [])
          else
            let call = \<lparr>req_url = u, req_key = key, req_strategy = strat,
                         req_category = Some ''performance''\<rparr>
            in ((case up call of
                   NetworkFailure \<Rightarrow> Inl TypeError
                 | Responded r \<Rightarrow>
                     if \<not> ok r
                     then Inl (Error (trim (''Falha ao consultar PageSpeed (''
                                              @ strategy_name strat @ ''). '' @ body_text r)))
                     else (case body_json r of
                             None \<Rightarrow> Inl SyntaxError
                           | Some payload \<Rightarrow> Inr payload)),
                [call]))"

text \<open>\<open>/^https?:\/\//i.test(u)\<close>\<close>

definition http_url_test :: "string \<Rightarrow> bool" where
  "http_url_test u =
     (startsWith (map lower_char u) ''http://'' \<or> startsWith (map lower_char u) ''https://'')"

record PageSpeedReport =
  mobile :: ApiResult
  desktop :: ApiResult

text \<open>
  The handler, with the order in which the two calls settle as a parameter. The second
  component lists the upstream calls made. The \<open>catch\<close> clause answers 500 with the
  message of the error; its text for a thrown value that is not an \<open>Error\<close> is never
  used, every thrown value being one.
\<close>

definition pagespeed_POST ::
  "string option \<Rightarrow> upstream \<Rightarrow> settle_order \<Rightarrow> request
     \<Rightarrow> PageSpeedReport response \<times> upstream_request list" where
  "pagespeed_POST env up order req =
     (case req of
        NotJson \<Rightarrow> (NextResponse 500 (ErrorBody (message_of SyntaxError)), [])
      | JsonNull \<Rightarrow> (NextResponse 500 (ErrorBody (message_of TypeError)), [])
      | Body b \<Rightarrow>
          (case url b of
             None \<Rightarrow> (NextResponse 400 (ErrorBody (Text invalid_url_message)), [])
           | Some u \<Rightarrow>
               if u = [] \<or> \<not> http_url_test u
               then (NextResponse 400 (ErrorBody (Text invalid_url_message)), [])
               else
                 let (m, calls_m) = fetchPageSpeed env up u Mobile;
                     (d, calls_d) = fetchPageSpeed env up u Desktop
                 in ((case Promise_all order m d of
                        Inl e \<Rightarrow> NextResponse 500 (ErrorBody (message_of e))
                      | Inr (pm, pd) \<Rightarrow>
                          NextResponse 200
                            (ResultBody \<lparr>mobile = extractResult pm, desktop = extractResult pd\<rparr>)),
                     calls_m @ calls_d)))"


section \<open>The richer extractor and the analyze route\<close>

record AnalyzeMetrics =
  fcp :: "string option"
  lcp :: "string option"
  tbt :: "string option"
  cls :: "string option"
  speedIndex :: "string option"

record AnalyzeResult =
  score :: number
  metrics :: AnalyzeMetrics
  recommendations :: "Recommendation list"

record AnalyzeReport =
  mobile :: AnalyzeResult
  desktop :: AnalyzeResult
  url :: string
  email :: string

text \<open>\<open>Math.round(score * 100)\<close> on a field: \<open>undefined\<close> gives NaN, \<open>null\<close> gives 0.\<close>

fun rounded_score :: "rat field \<Rightarrow> number" where
  "rounded_score Undefined = NaN"
| "rounded_score Null = Num 0"
| "rounded_score (Value v) = Num (of_int (round (double_of (v * 100))))"

text \<open>\<open>audit.details?.overallSavingsMs\<close>\<close>

definition overallSavingsMs_of :: "PageSpeedAudit \<Rightarrow> rat option" where
  "overallSavingsMs_of audit =
     (case details audit of None \<Rightarrow> None | Some d \<Rightarrow> overallSavingsMs d)"

text \<open>
  \<open>audit.score !== null && audit.score < 1 && audit.details?.overallSavingsMs > 100\<close>
\<close>

definition rich_filter :: "PageSpeedAudit \<Rightarrow> bool" where
  "rich_filter audit =
     (PageSpeedAudit.score audit \<noteq> Null \<and> less_than_1 (PageSpeedAudit.score audit) \<and>
      (case overallSavingsMs_of audit of None \<Rightarrow> False | Some v \<Rightarrow> v > 100))"

text \<open>
  \<open>audit.details?.overallSavingsMs ?? 0\<close>. The comparator of the sort and the template
  of \<open>savings\<close> read \<open>audit.details.overallSavingsMs\<close> without a default; both run on
  audits that passed the filter only, where the value is present (lemma
  \<open>rich_filter_savings\<close>), so they read this same value.
\<close>

definition savings_ms :: "PageSpeedAudit \<Rightarrow> rat" where
  "savings_ms audit = (case overallSavingsMs_of audit of None \<Rightarrow> 0 | Some v \<Rightarrow> v)"

text \<open>The chain from \<open>Object.values(audits)\<close> to \<open>.slice(0, 3)\<close>.\<close>

definition rich_selected :: "(string \<times> PageSpeedAudit) list \<Rightarrow> PageSpeedAudit list" where
  "rich_selected auds = take 3 (sort_desc savings_ms (filter rich_filter (map snd auds)))"

definition rich_recommendation :: "PageSpeedAudit \<Rightarrow> Recommendation" where
  "rich_recommendation audit =
     \<lparr>Recommendation.title = PageSpeedAudit.title audit,
      Recommendation.description = PageSpeedAudit.description audit,
      savings =
        Some (case displayValue audit of
                None \<Rightarrow> show_int (round (double_of (savings_ms audit / 1000))) @ ''s''
              | Some v \<Rightarrow>
                  if v \<noteq> [] then v else show_int (round (double_of (savings_ms audit / 1000))) @ ''s''),
      savingsMs = Some (savings_ms audit)\<rparr>"

text \<open>\<open>audits[k].displayValue\<close> throws when the audit is absent.\<close>

definition has_audit :: "(string \<times> PageSpeedAudit) list \<Rightarrow> string \<Rightarrow> bool" where
  "has_audit auds k = (map_of auds k \<noteq> None)"

definition display_of :: "(string \<times> PageSpeedAudit) list \<Rightarrow> string \<Rightarrow> string option" where
  "display_of auds k = (case map_of auds k of None \<Rightarrow> None | Some audit \<Rightarrow> displayValue audit)"

text \<open>The part of \<open>analyzePageSpeed\<close> that follows \<open>await response.json()\<close>.\<close>

definition analyze_data :: "PageSpeedResponse \<Rightarrow> thrown + AnalyzeResult" where
  "analyze_data data =
     (case lighthouseResult data of
        None \<Rightarrow> Inl TypeError
      | Some lighthouse \<Rightarrow>
          (case categories lighthouse of
             None \<Rightarrow> Inl TypeError
           | Some cats \<Rightarrow>
               (case performance cats of
                  None \<Rightarrow> Inl TypeError
                | Some perf \<Rightarrow>
                    (case audits lighthouse of
                       None \<Rightarrow> Inl TypeError
                     | Some auds \<Rightarrow>
                         if has_audit auds ''first-contentful-paint'' \<and>
                            has_audit auds ''largest-contentful-paint'' \<and>
                            has_audit auds ''total-blocking-time'' \<and>
                            has_audit auds ''cumulative-layout-shift'' \<and>
                            has_audit auds ''speed-index''
                         then
                           Inr \<lparr>AnalyzeResult.score = rounded_score (Performance.score perf),
                                AnalyzeResult.metrics =
                                  \<lparr>AnalyzeMetrics.fcp = display_of auds ''first-contentful-paint'',
                                   AnalyzeMetrics.lcp = display_of auds ''largest-contentful-paint'',
                                   AnalyzeMetrics.tbt = display_of auds ''total-blocking-time'',
                                   AnalyzeMetrics.cls = display_of auds ''cumulative-layout-shift'',
                                   speedIndex = display_of auds ''speed-index''\<rparr>,
                                AnalyzeResult.recommendations =
                                  map rich_recommendation (rich_selected auds)\<rparr>
                         else Inl TypeError))))"

definition analyzePageSpeed ::
  "upstream \<Rightarrow> string \<Rightarrow> strategy \<Rightarrow> string
     \<Rightarrow> (thrown + AnalyzeResult) \<times> upstream_request list" where
  "analyzePageSpeed up u strat apiKey =
     (let call = \<lparr>req_url = u, req_key = apiKey, req_strategy = strat, req_category = None\<rparr>
      in ((case up call of
             NetworkFailure \<Rightarrow> Inl TypeError
           | Responded r \<Rightarrow>
               if \<not> ok r then Inl (Error (''PageSpeed API error: '' @ show_nat (status r)))
               else (case body_json r of None \<Rightarrow> Inl SyntaxError | Some data \<Rightarrow> analyze_data data)),
          [call]))"

definition required_message :: string where
  "required_message = ''Email e URL s'' @ [CHR 0xE3] @ ''o obrigat'' @ [CHR 0xF3] @ ''rios''"

definition no_key_message :: string where
  "no_key_message = ''API key n'' @ [CHR 0xE3] @ ''o configurada''"

text \<open>\<open>error.message || 'Erro ao analisar site'\<close>\<close>

fun message_or_default :: "message \<Rightarrow> message" where
  "message_or_default (Text m) = (if m = [] then Text ''Erro ao analisar site'' else Text m)"
| "message_or_default RuntimeText = RuntimeText"

text \<open>
  The handler of the analyze route, with the same parameters. Its \<open>catch\<close> clause also
  writes the error to the console, which is not part of the model.
\<close>

definition analyze_POST ::
  "string option \<Rightarrow> upstream \<Rightarrow> settle_order \<Rightarrow> request
     \<Rightarrow> AnalyzeReport response \<times> upstream_request list" where
  "analyze_POST env up order req =
     (case req of
        NotJson \<Rightarrow> (NextResponse 500 (ErrorBody (message_or_default (message_of SyntaxError))), [])
      | JsonNull \<Rightarrow> (NextResponse 500 (ErrorBody (message_or_default (message_of TypeError))), [])
      | Body b \<Rightarrow>
          (case (RequestBody.email b, RequestBody.url b) of
             (Some e, Some u) \<Rightarrow>
               if e = [] \<or> u = []
               then (NextResponse 400 (ErrorBody (Text required_message)), [])
               else
                 (case env of
                    None \<Rightarrow> (NextResponse 500 (ErrorBody (Text no_key_message)), [])
                  | Some apiKey \<Rightarrow>
                      if apiKey = []
                      then (NextResponse 500 (ErrorBody (Text no_key_message)), [])
                      else
                        let (m, calls_m) = analyzePageSpeed up u Mobile apiKey;
                            (d, calls_d) = analyzePageSpeed up u Desktop apiKey
                        in ((case Promise_all order m d of
                               Inl e' \<Rightarrow>
                                 NextResponse 500 (ErrorBody (message_or_default (message_of e')))
                             | Inr (rm, rd) \<Rightarrow>
                                 NextResponse 200
                                   (ResultBody \<lparr>AnalyzeReport.mobile = rm,
                                                AnalyzeReport.desktop = rd,
                                                AnalyzeReport.url = u,
                                                AnalyzeReport.email = e\<rparr>)),
                            calls_m @ calls_d))
           | _ \<Rightarrow> (NextResponse 400 (ErrorBody (Text required_message)), [])))"


section \<open>Example inputs\<close>

definition text_item :: "string \<Rightarrow> Recommendation" where
  "text_item s =
     \<lparr>Recommendation.title = ''Defer images'', Recommendation.description = None,
      savings = Some s, savingsMs = None\<rparr>"

definition ms_item :: "string \<Rightarrow> rat \<Rightarrow> Recommendation" where
  "ms_item t v =
     \<lparr>Recommendation.title = t, Recommendation.description = None,
      savings = None, savingsMs = Some v\<rparr>"

definition bare_item :: Recommendation where
  "bare_item =
     \<lparr>Recommendation.title = ''Defer images'', Recommendation.description = None,
      savings = None, savingsMs = None\<rparr>"

definition desktop_twin :: Recommendation where
  "desktop_twin =
     \<lparr>Recommendation.title = ''Defer images'', Recommendation.description = Some ''desktop'',
      savings = None, savingsMs = Some 500\<rparr>"


definition metric_audit :: "string \<Rightarrow> string \<Rightarrow> PageSpeedAudit" where
  "metric_audit k v =
     \<lparr>audit_id = k, PageSpeedAudit.title = k, PageSpeedAudit.description = None,
      PageSpeedAudit.score = Value 1, displayValue = Some v, numericValue = None,
      details = None\<rparr>"

definition metric_audits :: "(string \<times> PageSpeedAudit) list" where
  "metric_audits =
     [(''first-contentful-paint'', metric_audit ''first-contentful-paint'' ''1.0 s''),
      (''largest-contentful-paint'', metric_audit ''largest-contentful-paint'' ''2.5 s''),
      (''total-blocking-time'', metric_audit ''total-blocking-time'' ''150 ms''),
      (''cumulative-layout-shift'', metric_audit ''cumulative-layout-shift'' ''0.01''),
      (''speed-index'', metric_audit ''speed-index'' ''1.8 s'')]"

definition audits_without_fcp :: "(string \<times> PageSpeedAudit) list" where
  "audits_without_fcp =
     [(''largest-contentful-paint'', metric_audit ''largest-contentful-paint'' ''2.5 s''),
      (''total-blocking-time'', metric_audit ''total-blocking-time'' ''150 ms''),
      (''cumulative-layout-shift'', metric_audit ''cumulative-layout-shift'' ''0.01''),
      (''speed-index'', metric_audit ''speed-index'' ''1.8 s'')]"

definition opportunity :: "string \<Rightarrow> rat field \<Rightarrow> rat \<Rightarrow> PageSpeedAudit" where
  "opportunity t s v =
     \<lparr>audit_id = ''unused-css-rules'', PageSpeedAudit.title = t,
      PageSpeedAudit.description = None, PageSpeedAudit.score = s, displayValue = None,
      numericValue = Some v, details = Some \<lparr>overallSavingsMs = Some v\<rparr>\<rparr>"

definition payload_with ::
  "rat field \<Rightarrow> (string \<times> PageSpeedAudit) list \<Rightarrow> AuditRef list \<Rightarrow> PageSpeedResponse" where
  "payload_with s auds refs =
     \<lparr>lighthouseResult =
        Some \<lparr>categories =
                 Some \<lparr>performance = Some \<lparr>Performance.score = s, auditRefs = Some refs\<rparr>\<rparr>,
               audits = Some auds\<rparr>\<rparr>"

definition empty_payload :: PageSpeedResponse where
  "empty_payload = \<lparr>lighthouseResult = None\<rparr>"

definition sample_metrics :: AnalyzeMetrics where
  "sample_metrics =
     \<lparr>AnalyzeMetrics.fcp = Some ''1.0 s'', AnalyzeMetrics.lcp = Some ''2.5 s'',
      AnalyzeMetrics.tbt = Some ''150 ms'', AnalyzeMetrics.cls = Some ''0.01'',
      speedIndex = Some ''1.8 s''\<rparr>"

definition sample_result :: AnalyzeResult where
  "sample_result =
     \<lparr>AnalyzeResult.score = Num 75, AnalyzeResult.metrics = sample_metrics,
      AnalyzeResult.recommendations = []\<rparr>"

definition upstream_sample :: upstream where
  "upstream_sample =
     (\<lambda>call. Responded \<lparr>status = 200, body_text = [],
                          body_json = Some (payload_with (Value (3 / 4)) metric_audits [])\<rparr>)"

definition upstream_desktop_down :: upstream where
  "upstream_desktop_down =
     (\<lambda>call. if req_strategy call = Desktop
             then Responded \<lparr>status = 503, body_text = ''Service Unavailable'', body_json = None\<rparr>
             else Responded \<lparr>status = 200, body_text = [],
                              body_json = Some (payload_with (Value (3 / 4)) metric_audits [])\<rparr>)"

definition request_with :: "string \<Rightarrow> string option \<Rightarrow> request" where
  "request_with u e = Body \<lparr>RequestBody.url = Some u, RequestBody.email = e\<rparr>"

definition analyze_call :: "string \<Rightarrow> strategy \<Rightarrow> upstream_request" where
  "analyze_call u strat =
     \<lparr>req_url = u, req_key = ''KEY'', req_strategy = strat, req_category = None\<rparr>"

definition pagespeed_call :: "string \<Rightarrow> strategy \<Rightarrow> upstream_request" where
  "pagespeed_call u strat =
     \<lparr>req_url = u, req_key = ''KEY'', req_strategy = strat,
      req_category = Some ''performance''\<rparr>"


definition ranked_audits :: "(string \<times> PageSpeedAudit) list" where
  "ranked_audits =
     metric_audits @
     [(''a'', opportunity ''T1'' (Value (1 / 2)) 5000),
      (''b'', opportunity ''T2'' Undefined 9000),
      (''c'', opportunity ''T3'' (Value 0) 7000),
      (''d'', opportunity [] (Value 0) 3000),
      (''e'', opportunity ''T5'' Null 8000)]"

definition ranked_refs :: "AuditRef list" where
  "ranked_refs =
     [\<lparr>ref_id = ''a'', weight = 1\<rparr>, \<lparr>ref_id = ''b'', weight = 1\<rparr>,
      \<lparr>ref_id = ''c'', weight = 1\<rparr>, \<lparr>ref_id = ''d'', weight = 1\<rparr>,
      \<lparr>ref_id = ''e'', weight = 1\<rparr>, \<lparr>ref_id = ''missing'', weight = 0\<rparr>]"

definition ranked_payload :: PageSpeedResponse where
  "ranked_payload = payload_with (Value (3 / 4)) ranked_audits ranked_refs"

definition rich_item :: "string \<Rightarrow> string \<Rightarrow> rat \<Rightarrow> Recommendation" where
  "rich_item t s v =
     \<lparr>Recommendation.title = t, Recommendation.description = None,
      savings = Some s, savingsMs = Some v\<rparr>"

definition ranked_result :: AnalyzeResult where
  "ranked_result =
     \<lparr>AnalyzeResult.score = Num 75, AnalyzeResult.metrics = sample_metrics,
      AnalyzeResult.recommendations =
        [rich_item ''T3'' ''7s'' 7000, rich_item ''T1'' ''5s'' 5000, rich_item [] ''3s'' 3000]\<rparr>"

text \<open>A response with the echoed email blanked, to compare responses up to that field.\<close>

fun erase_email :: "AnalyzeReport response \<Rightarrow> AnalyzeReport response" where
  "erase_email (NextResponse st (ResultBody rep)) =
     NextResponse st (ResultBody (rep\<lparr>AnalyzeReport.email := []\<rparr>))"
| "erase_email (NextResponse st (ErrorBody m)) = NextResponse st (ErrorBody m)"


text \<open>The double nearest to 0.575, and a run of 310 digits.\<close>

definition double_0575 :: rat where
  "double_0575 = 2589569785738035 / 2 ^ 52"

definition long_run :: string where
  "long_run = replicate 310 (CHR ''9'')"


section \<open>Properties of the rounding to doubles\<close>

lemma finite_exponents: "finite {e \<in> {- 1022..1023::int}. P e}"
  by (rule finite_subset [where B = "{- 1022..1023}"]) auto

lemma exponent_range: "- 1022 \<le> exponent x \<and> exponent x \<le> 1023"
proof (cases "x < 2 powi (- 1022)")
  case True
  then show ?thesis by (simp add: exponent_def)
next
  case False
  let ?S = "{e \<in> {- 1022..1023}. (2::rat) powi e \<le> x}"
  have "finite ?S" by (rule finite_exponents)
  moreover have "- 1022 \<in> ?S" using False by simp
  ultimately have "Max ?S \<in> ?S" using Max_in by blast
  with False show ?thesis by (simp add: exponent_def)
qed

lemma exponent_le: "2 powi (- 1022) \<le> x \<Longrightarrow> 2 powi (exponent x) \<le> x"
proof -
  assume a: "2 powi (- 1022) \<le> x"
  let ?S = "{e \<in> {- 1022..1023}. (2::rat) powi e \<le> x}"
  have "finite ?S" by (rule finite_exponents)
  moreover have "- 1022 \<in> ?S" using a by simp
  ultimately have "Max ?S \<in> ?S" using Max_in by blast
  with a show ?thesis by (simp add: exponent_def)
qed

lemma exponent_eqI:
  assumes "- 1022 \<le> e" and "e \<le> 1023" and "2 powi e \<le> x" and "x < 2 powi (e + 1)"
  shows "exponent x = e"
proof -
  let ?S = "{e \<in> {- 1022..1023}. (2::rat) powi e \<le> x}"
  have "(2::rat) powi (- 1022) \<le> 2 powi e"
    using assms(1) by (intro power_int_increasing) simp_all
  with assms(3) have n: "\<not> x < 2 powi (- 1022)" by simp
  have "Max ?S = e"
  proof (rule Max_eqI)
    show "finite ?S" by (rule finite_exponents)
    show "e \<in> ?S" using assms by simp
    fix y assume "y \<in> ?S"
    then have "(2::rat) powi y \<le> x" by simp
    with assms(4) have "(2::rat) powi y < 2 powi (e + 1)" by simp
    have "y < e + 1"
    proof (rule ccontr)
      assume "\<not> y < e + 1"
      then have "(2::rat) powi (e + 1) \<le> 2 powi y"
        by (intro power_int_increasing) simp_all
      with \<open>(2::rat) powi y < 2 powi (e + 1)\<close> show False by simp
    qed
    then show "y \<le> e" by simp
  qed
  with n show ?thesis by (simp add: exponent_def)
qed

lemma exponent_mono:
  assumes "x \<le> y"
  shows "exponent x \<le> exponent y"
proof (cases "x < 2 powi (- 1022)")
  case True
  then have "exponent x = - 1022" by (simp add: exponent_def)
  then show ?thesis using exponent_range [of y] by simp
next
  case False
  let ?S = "\<lambda>x. {e \<in> {- 1022..1023}. (2::rat) powi e \<le> x}"
  from False assms have ny: "\<not> y < 2 powi (- 1022)" by simp
  have "Max (?S x) \<le> Max (?S y)"
  proof (rule Max_mono)
    show "?S x \<subseteq> ?S y" using assms by auto
    show "?S x \<noteq> {}" using False by (auto intro!: exI [of _ "- 1022"])
    show "finite (?S y)" by (rule finite_exponents)
  qed
  with False ny show ?thesis by (simp add: exponent_def)
qed

lemma round_half_even_of_int [simp]: "round_half_even (of_int n) = n"
  by (simp add: round_half_even_def)

lemma round_half_even_eqI:
  assumes "\<bar>y - of_int n\<bar> < 1 / 2"
  shows "round_half_even y = n"
proof -
  from assms have a: "of_int n - 1 / 2 < y" "y < of_int n + 1 / 2" by linarith+
  show ?thesis
  proof (cases "of_int n \<le> y")
    case True
    with a have "\<lfloor>y\<rfloor> = n" by (intro floor_unique) simp_all
    with a show ?thesis by (simp add: round_half_even_def Let_def)
  next
    case False
    with a have f: "\<lfloor>y\<rfloor> = n - 1" by (intro floor_unique) simp_all
    with a show ?thesis by (simp add: round_half_even_def Let_def)
  qed
qed

lemma round_half_even_bounds:
  "of_int (round_half_even y) - 1 / 2 \<le> y \<and> y \<le> of_int (round_half_even y) + 1 / 2"
proof -
  let ?n = "\<lfloor>y\<rfloor>"
  have f: "of_int ?n \<le> y" "y < of_int ?n + 1" by linarith+
  consider "y - of_int ?n < 1 / 2" | "1 / 2 < y - of_int ?n" | "y - of_int ?n = 1 / 2"
    by linarith
  then show ?thesis
  proof cases
    case 1
    then have r: "round_half_even y = ?n" by (simp add: round_half_even_def Let_def)
    show ?thesis unfolding r using f 1 by linarith
  next
    case 2
    then have r: "round_half_even y = ?n + 1" by (simp add: round_half_even_def Let_def)
    show ?thesis unfolding r using f 2 by simp
  next
    case 3
    then have "round_half_even y = ?n \<or> round_half_even y = ?n + 1"
      by (simp add: round_half_even_def Let_def)
    then show ?thesis
    proof
      assume r: "round_half_even y = ?n"
      show ?thesis unfolding r using f 3 by linarith
    next
      assume r: "round_half_even y = ?n + 1"
      show ?thesis unfolding r using f 3 by simp
    qed
  qed
qed

lemma round_half_even_le:
  assumes "y \<le> of_int n"
  shows "round_half_even y \<le> n"
proof -
  from round_half_even_bounds [of y] assms
  have "(of_int (round_half_even y) :: rat) < of_int n + 1" by linarith
  then have "(of_int (round_half_even y) :: rat) < of_int (n + 1)" by simp
  then have "round_half_even y < n + 1" by (simp only: of_int_less_iff)
  then show ?thesis by simp
qed

lemma round_half_even_ge:
  assumes "of_int n \<le> y"
  shows "n \<le> round_half_even y"
proof -
  from round_half_even_bounds [of y] assms
  have "(of_int (n - 1) :: rat) < of_int (round_half_even y)" by simp
  then have "n - 1 < round_half_even y" by (simp only: of_int_less_iff)
  then show ?thesis by simp
qed

lemma round_half_even_nonneg: "0 \<le> y \<Longrightarrow> 0 \<le> round_half_even y"
  using round_half_even_ge [of 0 y] by simp

text \<open>A value that is a double is its own rounding.\<close>

lemma double_of_pos_exact:
  assumes "0 < m" and "m < 2 ^ 53" and "- 1074 \<le> j"
    and x: "x = of_int m * 2 powi j" and fin: "x < 2 ^ 1024"
  shows "double_of x = x"
proof -
  have pos: "0 < x" using assms(1) by (simp add: x zero_less_mult_iff)
  let ?e = "exponent x"
  have e_le: "?e \<le> j + 52"
  proof (cases "x < 2 powi (- 1022)")
    case True
    then have "?e = - 1022" by (simp add: exponent_def)
    with assms(3) show ?thesis by simp
  next
    case False
    then have "2 powi ?e \<le> x" by (intro exponent_le) simp
    also have "x < 2 ^ 53 * 2 powi j"
    proof -
      have "(of_int m :: rat) < of_int (2 ^ 53)" using assms(2) by (simp only: of_int_less_iff)
      then have "(of_int m :: rat) < 2 ^ 53" by (simp only: of_int_power of_int_numeral)
      moreover have "0 < (2::rat) powi j" by (rule zero_less_power_int) simp
      ultimately show ?thesis unfolding x by (rule mult_strict_right_mono)
    qed
    also have "\<dots> = 2 powi (j + 53)" by (simp add: power_int_add)
    finally have "(2::rat) powi ?e < 2 powi (j + 53)" .
    then have "?e < j + 53"
      using power_int_increasing [of "j + 53" ?e "2::rat"] by (cases "?e < j + 53") simp_all
    then show ?thesis by simp
  qed
  then obtain k where k: "j + 52 - ?e = int k" using nonneg_int_cases [of "j + 52 - ?e"] by auto
  have "x / 2 powi (?e - 52) = of_int m * 2 powi (j - (?e - 52))"
    unfolding x by (simp add: power_int_diff)
  also have "j - (?e - 52) = int k" using k by simp
  finally have d: "x / 2 powi (?e - 52) = of_int (m * 2 ^ k)" by simp
  have "double_of x = of_int (round_half_even (x / 2 powi (?e - 52))) * 2 powi (?e - 52)"
    using pos fin by (simp add: double_of_def Let_def)
  also have "\<dots> = x / 2 powi (?e - 52) * 2 powi (?e - 52)"
    unfolding d round_half_even_of_int ..
  also have "\<dots> = x" by simp
  finally show ?thesis .
qed

lemma double_of_0 [simp]: "double_of 0 = 0"
  by (simp add: double_of_def)

lemma double_of_minus: "double_of (- x) = - double_of x"
  by (simp add: double_of_def Let_def)

lemma double_of_of_int:
  assumes "\<bar>k\<bar> < 2 ^ 53"
  shows "double_of (of_int k) = of_int k"
proof -
  have p: "double_of (of_int m) = of_int m" if "0 < m" "m < 2 ^ 53" for m
  proof (rule double_of_pos_exact [of m 0])
    show "(of_int m :: rat) = of_int m * 2 powi 0" by simp
    have "(of_int m :: rat) < of_int (2 ^ 53)" using that(2) by (simp only: of_int_less_iff)
    also have "\<dots> = 2 ^ 53" by (simp only: of_int_power of_int_numeral)
    also have "(2::rat) ^ 53 < 2 ^ 1024" by (rule power_strict_increasing) simp_all
    finally show "(of_int m :: rat) < 2 ^ 1024" .
  qed (use that in simp_all)
  consider "k = 0" | "0 < k" | "k < 0" by linarith
  then show ?thesis
  proof cases
    case 1
    then show ?thesis by simp
  next
    case 2
    with assms show ?thesis by (intro p) simp_all
  next
    case 3
    with assms have "double_of (of_int (- k)) = of_int (- k)" by (intro p) simp_all
    then show ?thesis using double_of_minus [of "of_int k"] by simp
  qed
qed

lemma double_of_eqI:
  assumes "- 1022 \<le> e" and "e \<le> 1023" and "2 powi e \<le> x" and "x < 2 powi (e + 1)"
    and "\<bar>x / 2 powi (e - 52) - of_int n\<bar> < 1 / 2"
  shows "double_of x = of_int n * 2 powi (e - 52)"
proof -
  have e: "exponent x = e" using assms(1-4) by (rule exponent_eqI)
  have "0 < (2::rat) powi e" by (rule zero_less_power_int) simp
  with assms(3) have pos: "0 < x" by linarith
  have "(2::rat) powi (e + 1) \<le> 2 powi 1024"
    using assms(2) by (intro power_int_increasing) simp_all
  with assms(4) have "x < 2 powi 1024" by simp
  then have fin: "\<not> 2 ^ 1024 \<le> \<bar>x\<bar>" using pos by simp
  have "round_half_even (x / 2 powi (e - 52)) = n" using assms(5) by (rule round_half_even_eqI)
  with pos fin e show ?thesis by (simp add: double_of_def Let_def)
qed

lemma double_of_nonneg: "0 \<le> x \<Longrightarrow> 0 \<le> double_of x"
proof -
  assume x: "0 \<le> x"
  have q: "0 < (2::rat) powi (exponent \<bar>x\<bar> - 52)" by (rule zero_less_power_int) simp
  with x have "0 \<le> \<bar>x\<bar> / 2 powi (exponent \<bar>x\<bar> - 52)" by simp
  then have "0 \<le> round_half_even (\<bar>x\<bar> / 2 powi (exponent \<bar>x\<bar> - 52))"
    by (rule round_half_even_nonneg)
  then have "0 \<le> sgn x * of_int (round_half_even (\<bar>x\<bar> / 2 powi (exponent \<bar>x\<bar> - 52)))
               * 2 powi (exponent \<bar>x\<bar> - 52)"
    using x q by (intro mult_nonneg_nonneg) (simp_all add: sgn_if)
  moreover have "(0::rat) \<le> sgn x * 2 ^ 1024" using x by (simp add: sgn_if)
  ultimately show ?thesis by (simp add: double_of_def Let_def)
qed

lemma exponent_repr:
  assumes "0 < m" and "m < 2 ^ 53" and "- 1074 \<le> j"
  shows "exponent (of_int m * 2 powi j) \<le> j + 52"
proof (cases "of_int m * 2 powi j < (2::rat) powi (- 1022)")
  case True
  then have "exponent (of_int m * 2 powi j) = - 1022" by (simp add: exponent_def)
  with assms(3) show ?thesis by simp
next
  case False
  let ?x = "of_int m * 2 powi j :: rat"
  let ?e = "exponent ?x"
  from False have "2 powi ?e \<le> ?x" by (intro exponent_le) simp
  also have "?x < 2 ^ 53 * 2 powi j"
  proof -
    have "(of_int m :: rat) < of_int (2 ^ 53)" using assms(2) by (simp only: of_int_less_iff)
    then have "(of_int m :: rat) < 2 ^ 53" by (simp only: of_int_power of_int_numeral)
    moreover have "0 < (2::rat) powi j" by (rule zero_less_power_int) simp
    ultimately show ?thesis by (rule mult_strict_right_mono)
  qed
  also have "\<dots> = 2 powi (j + 53)" by (simp add: power_int_add)
  finally have "(2::rat) powi ?e < 2 powi (j + 53)" .
  then have "?e < j + 53"
    using power_int_increasing [of "j + 53" ?e "2::rat"] by (cases "?e < j + 53") simp_all
  then show ?thesis by simp
qed

text \<open>Rounding does not cross a double.\<close>

lemma double_of_le:
  assumes "0 \<le> x" and "x \<le> of_int m * 2 powi j"
    and "0 < m" and "m < 2 ^ 53" and "- 1074 \<le> j" and "of_int m * 2 powi j < (2::rat) ^ 1024"
  shows "double_of x \<le> of_int m * 2 powi j"
proof -
  let ?y = "of_int m * 2 powi j :: rat"
  let ?e = "exponent \<bar>x\<bar>"
  let ?q = "(2::rat) powi (?e - 52)"
  have q: "0 < ?q" by (rule zero_less_power_int) simp
  have "?e \<le> exponent ?y" using assms(1,2) by (intro exponent_mono) simp
  also have "\<dots> \<le> j + 52" using assms(3-5) by (rule exponent_repr)
  finally obtain k where k: "j + 52 - ?e = int k"
    using nonneg_int_cases [of "j + 52 - ?e"] by auto
  have "?y / ?q = of_int m * 2 powi (j - (?e - 52))" by (simp add: power_int_diff)
  also have "j - (?e - 52) = int k" using k by simp
  finally have d: "?y / ?q = of_int (m * 2 ^ k)" by simp
  have "\<bar>x\<bar> / ?q \<le> ?y / ?q" using assms(1,2) q by (simp add: divide_right_mono)
  then have "round_half_even (\<bar>x\<bar> / ?q) \<le> m * 2 ^ k"
    unfolding d by (rule round_half_even_le)
  then have "(of_int (round_half_even (\<bar>x\<bar> / ?q)) :: rat) \<le> of_int (m * 2 ^ k)"
    by (simp only: of_int_le_iff)
  then have "of_int (round_half_even (\<bar>x\<bar> / ?q)) * ?q \<le> ?y / ?q * ?q"
    unfolding d using q by (intro mult_right_mono) simp_all
  then have r: "of_int (round_half_even (\<bar>x\<bar> / ?q)) * ?q \<le> ?y" by simp
  have fin: "\<not> 2 ^ 1024 \<le> \<bar>x\<bar>" using assms(1,2,6) by simp
  show ?thesis
  proof (cases "x = 0")
    case True
    with assms(2) show ?thesis by simp
  next
    case False
    with assms(1) have "sgn x = 1" by (simp add: sgn_if)
    with fin r show ?thesis by (simp add: double_of_def Let_def)
  qed
qed

lemma double_of_error:
  assumes "\<bar>x\<bar> < 2 ^ 1024"
  shows "\<bar>double_of x - x\<bar> \<le> 2 powi (exponent \<bar>x\<bar> - 53)"
proof -
  let ?q = "(2::rat) powi (exponent \<bar>x\<bar> - 52)"
  let ?n = "round_half_even (\<bar>x\<bar> / ?q)"
  have q: "0 < ?q" by (rule zero_less_power_int) simp
  have h: "?q / 2 = 2 powi (exponent \<bar>x\<bar> - 53)"
    using power_int_diff [of "2::rat" "exponent \<bar>x\<bar> - 52" 1] by simp
  from round_half_even_bounds [of "\<bar>x\<bar> / ?q"]
  have "\<bar>of_int ?n - \<bar>x\<bar> / ?q\<bar> \<le> 1 / 2" by linarith
  then have "\<bar>of_int ?n - \<bar>x\<bar> / ?q\<bar> * ?q \<le> 1 / 2 * ?q"
    using q by (intro mult_right_mono) simp_all
  moreover have "\<bar>of_int ?n - \<bar>x\<bar> / ?q\<bar> * ?q = \<bar>of_int ?n * ?q - \<bar>x\<bar>\<bar>"
  proof -
    have e: "(of_int ?n - \<bar>x\<bar> / ?q) * ?q = of_int ?n * ?q - \<bar>x\<bar>"
      using q by (simp add: left_diff_distrib)
    have "\<bar>of_int ?n - \<bar>x\<bar> / ?q\<bar> * ?q = \<bar>(of_int ?n - \<bar>x\<bar> / ?q) * ?q\<bar>"
      using q by (simp add: abs_mult)
    then show ?thesis by (simp only: e)
  qed
  ultimately have b: "\<bar>of_int ?n * ?q - \<bar>x\<bar>\<bar> \<le> 2 powi (exponent \<bar>x\<bar> - 53)"
    using h by simp
  have "double_of x = sgn x * (of_int ?n * ?q)"
    using assms by (simp add: double_of_def Let_def)
  moreover have "x = sgn x * \<bar>x\<bar>" by (simp add: sgn_if)
  ultimately have "double_of x - x = sgn x * (of_int ?n * ?q - \<bar>x\<bar>)"
    by (simp add: right_diff_distrib)
  then have "\<bar>double_of x - x\<bar> = \<bar>sgn x\<bar> * \<bar>of_int ?n * ?q - \<bar>x\<bar>\<bar>"
    by (simp only: abs_mult)
  also have "\<dots> \<le> \<bar>of_int ?n * ?q - \<bar>x\<bar>\<bar>"
    by (cases "x = 0") (simp_all add: sgn_if)
  finally show ?thesis using b by simp
qed

lemma double_of_numeral:
  "(numeral k :: int) < 2 ^ 53 \<Longrightarrow> double_of (numeral k) = numeral k"
  using double_of_of_int [of "numeral k"] by simp

lemma double_of_1 [simp]: "double_of 1 = 1"
  using double_of_of_int [of 1] by simp


section \<open>Properties of the merger\<close>

lemmas parse_defs = toLowerCase_def lower_char_def match_digits_def isDigitOrDot_def
  isDigit_def Number_def digits_value_def digit_value_def

lemma double_of_overflow: "2 ^ 1024 \<le> x \<Longrightarrow> double_of x = 2 ^ 1024"
proof -
  assume a: "2 ^ 1024 \<le> x"
  have "(0::rat) < 2 ^ 1024" by (rule zero_less_power) simp
  with a have "0 < x" by linarith
  with a show ?thesis by (simp add: double_of_def)
qed

lemma double_of_half: "double_of (1 / 2) = 1 / 2"
  using double_of_pos_exact [of 1 "- 1" "1 / 2"] by simp

lemma double_of_3_2: "double_of (3 / 2) = 3 / 2"
  using double_of_pos_exact [of 3 "- 1" "3 / 2"] by simp

lemma double_of_6_5: "double_of (6 / 5) = 5404319552844595 / 2 ^ 52"
  using double_of_eqI [of 0 "6 / 5" 5404319552844595] by simp

lemma double_of_1200: "double_of (5404319552844595 / 2 ^ 52 * 1000) = 1200"
  using double_of_eqI [of 10 "5404319552844595 / 2 ^ 52 * 1000" 5277655813324800] by simp

lemma double_of_161_10: "double_of (161 / 10) = 4531747125041562 / 2 ^ 48"
  using double_of_eqI [of 4 "161 / 10" 4531747125041562] by simp

lemma double_of_16100:
  "double_of (4531747125041562 / 2 ^ 48 * 1000) = 8851068603596801 / 2 ^ 39"
  using double_of_eqI [of 13 "4531747125041562 / 2 ^ 48 * 1000" 8851068603596801] by simp

lemma Number_values:
  "Number ''1.2'' = Num (5404319552844595 / 2 ^ 52)"
  "Number ''300'' = Num 300"
  "Number ''1.5'' = Num (3 / 2)"
  "Number ''2'' = Num 2"
  "Number ''0.5'' = Num (1 / 2)"
  "Number ''45'' = Num 45"
  "Number ''16.1'' = Num (4531747125041562 / 2 ^ 48)"
  using double_of_6_5 double_of_3_2 double_of_half double_of_161_10
  by (simp_all add: parse_defs double_of_numeral)

lemmas text_defs = toLowerCase_def lower_char_def match_digits_def isDigitOrDot_def isDigit_def

lemma getSavingsMs_1200: "getSavingsMs (text_item ''1.2 s'') = 1200"
  using double_of_1200
  by (simp add: getSavingsMs_def text_item_def text_defs Number_values
      Number_isFinite_def Let_def)

text \<open>
  C1. For an item without a numeric \<open>savingsMs\<close>, \<open>getSavingsMs\<close> maps the savings
  string "1.2 s" to 1200, "300 ms" to 300, "1,5 s" to 1500, an absent or empty string to 0
  and "abc" to 0. In general, with \<open>v\<close> the finite number extracted from the normalised
  string, the result is \<open>v\<close> when the string contains "ms", else the double product of
  \<open>v\<close> and 1000 when it contains "s", else \<open>v\<close>: the "ms" test comes first, and a
  number without a unit counts as milliseconds. An extracted text that is not a number, or
  is too large for a finite double, gives 0.
\<close>

theorem getSavingsMs_parsing:
  assumes "savingsMs item = None"
  shows "(savings item = Some ''1.2 s'' \<longrightarrow> getSavingsMs item = 1200)
       \<and> (savings item = Some ''300 ms'' \<longrightarrow> getSavingsMs item = 300)
       \<and> (savings item = Some ''1,5 s'' \<longrightarrow> getSavingsMs item = 1500)
       \<and> (savings item = None \<or> savings item = Some [] \<longrightarrow> getSavingsMs item = 0)
       \<and> (savings item = Some ''abc'' \<longrightarrow> getSavingsMs item = 0)
       \<and> (savings item = Some s \<and> s \<noteq> [] \<and>
            match_digits (toLowerCase (replace_comma s)) = Some m \<and> Number m = Num v \<and>
            Number_isFinite v \<longrightarrow>
            getSavingsMs item =
              (if includes_str (toLowerCase (replace_comma s)) ''ms'' then v
               else if includes_str (toLowerCase (replace_comma s)) ''s'' then double_of (v * 1000)
               else v))
       \<and> (savings item = Some s \<and> s \<noteq> [] \<and>
            match_digits (toLowerCase (replace_comma s)) = Some m \<and>
            (Number m = NaN \<or> Number m = Num v \<and> \<not> Number_isFinite v) \<longrightarrow>
            getSavingsMs item = 0)"
proof (intro conjI impI)
  assume "savings item = Some ''1.2 s''"
  with assms show "getSavingsMs item = 1200"
    using double_of_1200
    by (simp add: getSavingsMs_def text_defs Number_values Number_isFinite_def
        Let_def)
next
  assume "savings item = Some ''300 ms''"
  with assms show "getSavingsMs item = 300"
    by (simp add: getSavingsMs_def text_defs Number_values Number_isFinite_def
        Let_def)
next
  assume "savings item = Some ''1,5 s''"
  with assms show "getSavingsMs item = 1500"
    by (simp add: getSavingsMs_def text_defs Number_values Number_isFinite_def
        double_of_numeral Let_def)
next
  assume "savings item = None \<or> savings item = Some []"
  with assms show "getSavingsMs item = 0"
    by (auto simp add: getSavingsMs_def)
next
  assume "savings item = Some ''abc''"
  with assms show "getSavingsMs item = 0"
    by (simp add: getSavingsMs_def text_defs Let_def)
next
  assume "savings item = Some s \<and> s \<noteq> [] \<and>
            match_digits (toLowerCase (replace_comma s)) = Some m \<and> Number m = Num v \<and>
            Number_isFinite v"
  with assms show "getSavingsMs item =
              (if includes_str (toLowerCase (replace_comma s)) ''ms'' then v
               else if includes_str (toLowerCase (replace_comma s)) ''s'' then double_of (v * 1000)
               else v)"
    by (simp add: getSavingsMs_def)
next
  assume "savings item = Some s \<and> s \<noteq> [] \<and>
            match_digits (toLowerCase (replace_comma s)) = Some m \<and>
            (Number m = NaN \<or> Number m = Num v \<and> \<not> Number_isFinite v)"
  with assms show "getSavingsMs item = 0"
    by (auto simp add: getSavingsMs_def)
qed

lemma digits_replicate_9:
  "foldl (\<lambda>acc c. 10 * acc + digit_value c) a (replicate n (CHR ''9'')) + 1 = (a + 1) * 10 ^ n"
proof (induction n arbitrary: a)
  case 0
  then show ?case by simp
next
  case (Suc n)
  have "digit_value (CHR ''9'') = 9" by (simp add: digit_value_def)
  then show ?case using Suc [of "10 * a + 9"] by (simp add: algebra_simps)
qed

lemma digits_value_long_run: "digits_value long_run = 10 ^ 310 - 1"
  using digits_replicate_9 [of 0 310] by (simp add: digits_value_def long_run_def)

lemma replace_comma_nines: "replace_comma (replicate n (CHR ''9'')) = replicate n (CHR ''9'')"
  by (induction n) simp_all

lemma long_run_nonempty: "long_run \<noteq> []"
  by (simp add: long_run_def)

lemma long_run_match: "match_digits (toLowerCase (replace_comma long_run)) = Some long_run"
  by (simp add: long_run_def replace_comma_nines text_defs)

lemma long_run_Number: "Number long_run = Num (2 ^ 1024)"
proof -
  have "isDigit (CHR ''9'')" by (simp add: isDigit_def)
  then have t: "takeWhile isDigit long_run = long_run" "dropWhile isDigit long_run = []"
    by (simp_all add: long_run_def)
  have "(2::int) ^ 1024 \<le> 10 ^ 310 - 1" by simp
  then have "(of_int (2 ^ 1024) :: rat) \<le> of_int (digits_value long_run)"
    unfolding digits_value_long_run by (simp only: of_int_le_iff)
  then have "(2::rat) ^ 1024 \<le> of_int (digits_value long_run)" by simp
  then have "double_of (of_int (digits_value long_run)) = 2 ^ 1024" by (rule double_of_overflow)
  then show ?thesis by (simp add: Number_def t)
qed

lemma infinity_not_finite: "\<not> Number_isFinite (2 ^ 1024)"
  by (simp add: Number_isFinite_def)

lemmas long_run_facts = long_run_nonempty long_run_match long_run_Number infinity_not_finite

theorem getSavingsMs_parsing_witness:
  "getSavingsMs (text_item ''1.2 s'') = 1200
   \<and> getSavingsMs (text_item ''300 ms'') = 300
   \<and> getSavingsMs (text_item ''1,5 s'') = 1500
   \<and> getSavingsMs bare_item = 0
   \<and> getSavingsMs (text_item []) = 0
   \<and> getSavingsMs (text_item ''abc'') = 0
   \<and> getSavingsMs (text_item ''2 MS'') = 2
   \<and> getSavingsMs (text_item ''0.5 S'') = 500
   \<and> getSavingsMs (text_item ''45'') = 45
   \<and> getSavingsMs (text_item ''16.1 s'') = 8851068603596801 / 2 ^ 39
   \<and> getSavingsMs (text_item ''1.2.3 s'') = 0
   \<and> getSavingsMs (text_item long_run) = 0"
proof (intro conjI)
  show "getSavingsMs (text_item ''1.2 s'') = 1200"
    using getSavingsMs_parsing [of "text_item ''1.2 s''"] by (simp add: text_item_def)
  show "getSavingsMs (text_item ''300 ms'') = 300"
    using getSavingsMs_parsing [of "text_item ''300 ms''"] by (simp add: text_item_def)
  show "getSavingsMs (text_item ''1,5 s'') = 1500"
    using getSavingsMs_parsing [of "text_item ''1,5 s''"] by (simp add: text_item_def)
  show "getSavingsMs bare_item = 0"
    using getSavingsMs_parsing [of bare_item] by (simp add: bare_item_def)
  show "getSavingsMs (text_item []) = 0"
    using getSavingsMs_parsing [of "text_item []"] by (simp add: text_item_def)
  show "getSavingsMs (text_item ''abc'') = 0"
    using getSavingsMs_parsing [of "text_item ''abc''"] by (simp add: text_item_def)
  show "getSavingsMs (text_item ''2 MS'') = 2"
    using getSavingsMs_parsing [of "text_item ''2 MS''" "''2 MS''" "''2''" 2]
    by (simp add: text_item_def text_defs Number_values Number_isFinite_def)
  show "getSavingsMs (text_item ''0.5 S'') = 500"
    using getSavingsMs_parsing [of "text_item ''0.5 S''" "''0.5 S''" "''0.5''" "1 / 2"]
    by (simp add: text_item_def text_defs Number_values Number_isFinite_def double_of_numeral)
  show "getSavingsMs (text_item ''45'') = 45"
    using getSavingsMs_parsing [of "text_item ''45''" "''45''" "''45''" 45]
    by (simp add: text_item_def text_defs Number_values Number_isFinite_def)
  show "getSavingsMs (text_item ''16.1 s'') = 8851068603596801 / 2 ^ 39"
    using getSavingsMs_parsing
      [of "text_item ''16.1 s''" "''16.1 s''" "''16.1''" "4531747125041562 / 2 ^ 48"]
      double_of_16100
    by (simp add: text_item_def text_defs Number_values Number_isFinite_def)
  show "getSavingsMs (text_item ''1.2.3 s'') = 0"
    using getSavingsMs_parsing [of "text_item ''1.2.3 s''" "''1.2.3 s''" "''1.2.3''"]
    by (simp add: text_item_def parse_defs)
  show "getSavingsMs (text_item long_run) = 0"
    using getSavingsMs_parsing [of "text_item long_run" long_run long_run "2 ^ 1024"]
      long_run_facts
    by (simp add: text_item_def)
qed

lemma sort_desc_sorted: "sorted_wrt (\<lambda>a b. key b \<le> key a) (sort_desc key xs)"
proof -
  have "sorted (map (\<lambda>a. - key a) (sort_desc key xs))"
    unfolding sort_desc_def by (rule sorted_sort_key)
  then show ?thesis by (simp add: sorted_map)
qed

lemma set_sort_desc: "set (sort_desc key xs) = set xs"
  by (simp add: sort_desc_def)

lemma length_sort_desc: "length (sort_desc key xs) = length xs"
  by (simp add: sort_desc_def)

lemma distinct_map_sort_desc:
  "distinct (map f (sort_desc key xs)) = distinct (map f xs)"
proof -
  have "mset (map f (sort_desc key xs)) = mset (map f xs)"
    by (simp add: sort_desc_def)
  then show ?thesis by (rule mset_eq_imp_distinct_iff)
qed

lemma top_sorted: "sorted_wrt (\<lambda>a b. key b \<le> key a) (take n (sort_desc key xs))"
  by (rule sorted_wrt_take) (rule sort_desc_sorted)

lemma update_titles:
  "\<forall>p\<in>set m. Recommendation.title (snd p) = fst p \<Longrightarrow>
   \<forall>p\<in>set (AList.update (Recommendation.title item) item m). Recommendation.title (snd p) = fst p"
  by (induction m) auto

lemma merge_step_titles:
  "\<forall>p\<in>set m. Recommendation.title (snd p) = fst p \<Longrightarrow>
   \<forall>p\<in>set (merge_step m item). Recommendation.title (snd p) = fst p"
  unfolding merge_step_def using update_titles [of m item] by (simp split: option.splits)

lemma merge_step_distinct:
  "distinct (map fst m) \<Longrightarrow> distinct (map fst (merge_step m item))"
  by (simp add: merge_step_def distinct_update split: option.splits)

lemma foldl_merge_keys:
  "distinct (map fst m) \<Longrightarrow> \<forall>p\<in>set m. Recommendation.title (snd p) = fst p \<Longrightarrow>
   distinct (map fst (foldl merge_step m items)) \<and>
   (\<forall>p\<in>set (foldl merge_step m items). Recommendation.title (snd p) = fst p)"
proof (induction items arbitrary: m)
  case Nil
  then show ?case by simp
next
  case (Cons item items)
  have "distinct (map fst (merge_step m item))"
    using Cons.prems(1) by (rule merge_step_distinct)
  moreover have "\<forall>p\<in>set (merge_step m item). Recommendation.title (snd p) = fst p"
    using Cons.prems(2) by (rule merge_step_titles)
  ultimately show ?case using Cons.IH [of "merge_step m item"] by simp
qed

lemma merged_titles_distinct:
  "distinct (map Recommendation.title (map snd (foldl merge_step [] items)))"
proof -
  let ?m = "foldl merge_step [] items"
  have k: "distinct (map fst ?m) \<and> (\<forall>p\<in>set ?m. Recommendation.title (snd p) = fst p)"
    by (rule foldl_merge_keys) simp_all
  then have e: "map (\<lambda>p. Recommendation.title (snd p)) ?m = map fst ?m" by simp
  have "distinct (map (\<lambda>p. Recommendation.title (snd p)) ?m)"
    unfolding e using k by (rule conjunct1)
  then show ?thesis by (simp only: map_map comp_def)
qed

lemma merge_step_lookup:
  "map_of (merge_step byTitle item) =
     (map_of byTitle)(Recommendation.title item \<mapsto>
        (case map_of byTitle (Recommendation.title item) of
           None \<Rightarrow> item
         | Some existing \<Rightarrow> if getSavingsMs existing < getSavingsMs item then item else existing))"
  by (auto simp: merge_step_def update_conv' split: option.splits)

lemma merge_two_same_title:
  assumes "Recommendation.title a = Recommendation.title b"
  shows "mergeRecommendations [a] [b] = [if getSavingsMs a < getSavingsMs b then b else a]"
  using assms by (simp add: mergeRecommendations_def merge_step_def sort_desc_def)

text \<open>
  C2. When the title of an item is already a key of the map, the stored item is replaced
  exactly when the new item has strictly greater estimated savings, and no other key
  changes; so of two items with one title the first is kept on equal savings. Merging
  \<open>{title: "Defer images", savingsMs: 500}\<close> with
  \<open>{title: "Defer images", savings: "1.2 s"}\<close> keeps the second, in either order.
\<close>

theorem merge_replaces_only_on_greater:
  "(map_of byTitle (Recommendation.title item) = Some existing \<longrightarrow>
      map_of (merge_step byTitle item) (Recommendation.title item) =
        Some (if getSavingsMs existing < getSavingsMs item then item else existing))
   \<and> (k \<noteq> Recommendation.title item \<longrightarrow> map_of (merge_step byTitle item) k = map_of byTitle k)
   \<and> (Recommendation.title a = Recommendation.title b \<longrightarrow>
        mergeRecommendations [a] [b] = [if getSavingsMs a < getSavingsMs b then b else a])
   \<and> getSavingsMs (text_item ''1.2 s'') = 1200
   \<and> mergeRecommendations [ms_item ''Defer images'' 500] [text_item ''1.2 s''] = [text_item ''1.2 s'']
   \<and> mergeRecommendations [text_item ''1.2 s''] [ms_item ''Defer images'' 500] = [text_item ''1.2 s'']"
proof (intro conjI impI)
  assume "map_of byTitle (Recommendation.title item) = Some existing"
  then show "map_of (merge_step byTitle item) (Recommendation.title item) =
        Some (if getSavingsMs existing < getSavingsMs item then item else existing)"
    by (simp add: merge_step_lookup)
next
  assume "k \<noteq> Recommendation.title item"
  then show "map_of (merge_step byTitle item) k = map_of byTitle k"
    by (simp add: merge_step_lookup)
next
  assume "Recommendation.title a = Recommendation.title b"
  then show "mergeRecommendations [a] [b] = [if getSavingsMs a < getSavingsMs b then b else a]"
    by (rule merge_two_same_title)
next
  show v: "getSavingsMs (text_item ''1.2 s'') = 1200"
    by (rule getSavingsMs_1200)
  have m: "getSavingsMs (ms_item ''Defer images'' 500) = 500"
    by (simp add: ms_item_def getSavingsMs_def)
  have t: "Recommendation.title (ms_item ''Defer images'' 500) = Recommendation.title (text_item ''1.2 s'')"
    by (simp add: ms_item_def text_item_def)
  show "mergeRecommendations [ms_item ''Defer images'' 500] [text_item ''1.2 s''] = [text_item ''1.2 s'']"
    using merge_two_same_title [OF t] by (simp add: v m)
  show "mergeRecommendations [text_item ''1.2 s''] [ms_item ''Defer images'' 500] = [text_item ''1.2 s'']"
    using merge_two_same_title [OF t [symmetric]] by (simp add: v m)
qed

theorem merge_replaces_only_on_greater_witness:
  "map_of (merge_step [(''Defer images'', ms_item ''Defer images'' 500)] desktop_twin) ''Defer images''
     = Some (ms_item ''Defer images'' 500)
   \<and> map_of (merge_step [(''Defer images'', ms_item ''Defer images'' 500)] (ms_item ''Defer images'' 700))
        ''Defer images'' = Some (ms_item ''Defer images'' 700)
   \<and> map_of (merge_step [(''Other'', ms_item ''Other'' 10)] desktop_twin) ''Other''
        = Some (ms_item ''Other'' 10)
   \<and> mergeRecommendations [ms_item ''Defer images'' 500] [desktop_twin] = [ms_item ''Defer images'' 500]"
proof (intro conjI)
  have g: "getSavingsMs (ms_item ''Defer images'' 500) = 500" "getSavingsMs desktop_twin = 500"
    "getSavingsMs (ms_item ''Defer images'' 700) = 700"
    by (simp_all add: ms_item_def desktop_twin_def getSavingsMs_def)
  show "map_of (merge_step [(''Defer images'', ms_item ''Defer images'' 500)] desktop_twin) ''Defer images''
     = Some (ms_item ''Defer images'' 500)"
    using merge_replaces_only_on_greater
      [of "[(''Defer images'', ms_item ''Defer images'' 500)]" desktop_twin "ms_item ''Defer images'' 500"]
    by (simp add: g) (simp add: desktop_twin_def)
  show "map_of (merge_step [(''Defer images'', ms_item ''Defer images'' 500)] (ms_item ''Defer images'' 700))
        ''Defer images'' = Some (ms_item ''Defer images'' 700)"
    using merge_replaces_only_on_greater
      [of "[(''Defer images'', ms_item ''Defer images'' 500)]" "ms_item ''Defer images'' 700"
          "ms_item ''Defer images'' 500"]
    by (simp add: g) (simp add: ms_item_def)
  show "map_of (merge_step [(''Other'', ms_item ''Other'' 10)] desktop_twin) ''Other''
        = Some (ms_item ''Other'' 10)"
    using merge_replaces_only_on_greater
      [of "[(''Other'', ms_item ''Other'' 10)]" desktop_twin _ "''Other''"]
    by (simp add: desktop_twin_def)
  show "mergeRecommendations [ms_item ''Defer images'' 500] [desktop_twin] = [ms_item ''Defer images'' 500]"
    using merge_replaces_only_on_greater
      [of _ _ _ _ "ms_item ''Defer images'' 500" desktop_twin]
    by (simp add: g) (simp add: ms_item_def desktop_twin_def)
qed

text \<open>
  C3. For every pair of input lists the merged list has at most 5 items, pairwise distinct
  titles, and is sorted by descending estimated savings.
\<close>

theorem mergeRecommendations_invariants:
  "length (mergeRecommendations ms ds) \<le> 5
   \<and> distinct (map Recommendation.title (mergeRecommendations ms ds))
   \<and> sorted_wrt (\<lambda>a b. getSavingsMs b \<le> getSavingsMs a) (mergeRecommendations ms ds)"
proof (intro conjI)
  show "length (mergeRecommendations ms ds) \<le> 5"
    by (simp add: mergeRecommendations_def)
  have "distinct (map Recommendation.title
          (sort_desc getSavingsMs (map snd (foldl merge_step [] (ms @ ds)))))"
    by (simp only: distinct_map_sort_desc merged_titles_distinct)
  then have "distinct (take 5 (map Recommendation.title
          (sort_desc getSavingsMs (map snd (foldl merge_step [] (ms @ ds))))))"
    by (rule distinct_take)
  then show "distinct (map Recommendation.title (mergeRecommendations ms ds))"
    by (simp add: mergeRecommendations_def take_map)
  show "sorted_wrt (\<lambda>a b. getSavingsMs b \<le> getSavingsMs a) (mergeRecommendations ms ds)"
    unfolding mergeRecommendations_def by (rule top_sorted)
qed

theorem mergeRecommendations_invariants_witness:
  "mergeRecommendations [ms_item ''A'' 2000, ms_item ''B'' 500] [ms_item ''A'' 1000, ms_item ''C'' 1500]
     = [ms_item ''A'' 2000, ms_item ''C'' 1500, ms_item ''B'' 500]
   \<and> length (mergeRecommendations [ms_item ''A'' 2000, ms_item ''B'' 500]
               [ms_item ''A'' 1000, ms_item ''C'' 1500]) \<le> 5
   \<and> distinct (map Recommendation.title
        (mergeRecommendations [ms_item ''A'' 2000, ms_item ''B'' 500]
           [ms_item ''A'' 1000, ms_item ''C'' 1500]))
   \<and> sorted_wrt (\<lambda>a b. getSavingsMs b \<le> getSavingsMs a)
        (mergeRecommendations [ms_item ''A'' 2000, ms_item ''B'' 500]
           [ms_item ''A'' 1000, ms_item ''C'' 1500])"
proof -
  have "mergeRecommendations [ms_item ''A'' 2000, ms_item ''B'' 500]
          [ms_item ''A'' 1000, ms_item ''C'' 1500]
        = [ms_item ''A'' 2000, ms_item ''C'' 1500, ms_item ''B'' 500]"
    by (simp add: mergeRecommendations_def merge_step_def sort_desc_def getSavingsMs_def ms_item_def)
  then show ?thesis
    using mergeRecommendations_invariants
      [of "[ms_item ''A'' 2000, ms_item ''B'' 500]" "[ms_item ''A'' 1000, ms_item ''C'' 1500]"]
    by simp
qed


section \<open>Properties of the extractors\<close>

lemma titled_member:
  "audit \<in> set (titled xs) \<Longrightarrow> Some audit \<in> set xs \<and> PageSpeedAudit.title audit \<noteq> []"
  by (induction xs rule: titled.induct) (auto split: if_splits)

lemma nullish_less_1: "(nullish_or f 1 < (1::rat)) = (\<exists>s. f = Value s \<and> s < 1)"
  by (cases f) simp_all

lemma rich_filter_iff:
  "rich_filter audit =
     ((\<exists>s. PageSpeedAudit.score audit = Value s \<and> s < 1) \<and>
      (\<exists>v. overallSavingsMs_of audit = Some v \<and> 100 < v))"
  by (cases "PageSpeedAudit.score audit"; cases "overallSavingsMs_of audit")
     (simp_all add: rich_filter_def)

lemma rich_filter_savings:
  "rich_filter audit \<Longrightarrow> \<exists>d v. details audit = Some d \<and> overallSavingsMs d = Some v \<and> savings_ms audit = v"
  by (auto simp: rich_filter_iff overallSavingsMs_of_def savings_ms_def split: option.splits)

lemma simple_selected_member:
  assumes "audit \<in> set (simple_selected payload)"
  shows "\<exists>perf refs. performance_of payload = Some perf \<and> auditRefs perf = Some refs \<and>
           (\<exists>ref\<in>set refs. map_of (audits_of payload) (ref_id ref) = Some audit) \<and>
           PageSpeedAudit.title audit \<noteq> [] \<and> nullish_or (PageSpeedAudit.score audit) 1 < 1"
proof -
  from assms obtain perf refs where p: "performance_of payload = Some perf"
    and r: "auditRefs perf = Some refs"
    by (cases "performance_of payload"; cases "auditRefs (the (performance_of payload))")
       (simp_all add: simple_selected_def)
  with assms have "audit \<in> set (take 3 (sort_desc numeric_or_0
        (filter (\<lambda>audit. nullish_or (PageSpeedAudit.score audit) 1 < 1)
           (titled (map (\<lambda>ref. map_of (audits_of payload) (ref_id ref)) refs)))))"
    by (simp add: simple_selected_def)
  then have "audit \<in> set (sort_desc numeric_or_0
        (filter (\<lambda>audit. nullish_or (PageSpeedAudit.score audit) 1 < 1)
           (titled (map (\<lambda>ref. map_of (audits_of payload) (ref_id ref)) refs))))"
    by (rule in_set_takeD)
  then have f: "nullish_or (PageSpeedAudit.score audit) 1 < 1"
    and t: "audit \<in> set (titled (map (\<lambda>ref. map_of (audits_of payload) (ref_id ref)) refs))"
    by (simp_all add: sort_desc_def)
  from titled_member [OF t] have "\<exists>ref\<in>set refs. map_of (audits_of payload) (ref_id ref) = Some audit"
    and "PageSpeedAudit.title audit \<noteq> []"
    by auto
  with p r f show ?thesis by blast
qed

lemma rich_selected_member:
  "audit \<in> set (rich_selected auds) \<Longrightarrow> rich_filter audit \<and> audit \<in> snd ` set auds"
proof -
  assume "audit \<in> set (rich_selected auds)"
  then have "audit \<in> set (sort_desc savings_ms (filter rich_filter (map snd auds)))"
    unfolding rich_selected_def by (rule in_set_takeD)
  then show ?thesis by (simp add: sort_desc_def)
qed

lemma getSavingsMs_rich: "getSavingsMs (rich_recommendation audit) = savings_ms audit"
  by (simp add: getSavingsMs_def rich_recommendation_def)

lemma analyze_data_Inr:
  assumes "analyze_data data = Inr result"
  shows "\<exists>lighthouse cats perf auds.
           lighthouseResult data = Some lighthouse \<and> categories lighthouse = Some cats \<and>
           performance cats = Some perf \<and> audits lighthouse = Some auds \<and>
           has_audit auds ''first-contentful-paint'' \<and>
           has_audit auds ''largest-contentful-paint'' \<and>
           has_audit auds ''total-blocking-time'' \<and>
           has_audit auds ''cumulative-layout-shift'' \<and>
           has_audit auds ''speed-index'' \<and>
           result =
             \<lparr>AnalyzeResult.score = rounded_score (Performance.score perf),
              AnalyzeResult.metrics =
                \<lparr>AnalyzeMetrics.fcp = display_of auds ''first-contentful-paint'',
                 AnalyzeMetrics.lcp = display_of auds ''largest-contentful-paint'',
                 AnalyzeMetrics.tbt = display_of auds ''total-blocking-time'',
                 AnalyzeMetrics.cls = display_of auds ''cumulative-layout-shift'',
                 speedIndex = display_of auds ''speed-index''\<rparr>,
              AnalyzeResult.recommendations = map rich_recommendation (rich_selected auds)\<rparr>"
  using assms unfolding analyze_data_def
  by (simp split: option.splits if_splits)

lemmas example_defs = ranked_payload_def payload_with_def ranked_audits_def metric_audits_def
  metric_audit_def opportunity_def ranked_refs_def

lemma ranked_simple:
  "simple_selected ranked_payload =
     [opportunity ''T3'' (Value 0) 7000, opportunity ''T1'' (Value (1 / 2)) 5000]"
  by (simp add: simple_selected_def performance_of_def audits_of_def example_defs
      sort_desc_def numeric_or_0_def)

lemma ranked_rich:
  "rich_selected ranked_audits =
     [opportunity ''T3'' (Value 0) 7000, opportunity ''T1'' (Value (1 / 2)) 5000,
      opportunity [] (Value 0) 3000]"
  by (simp add: rich_selected_def example_defs rich_filter_def overallSavingsMs_of_def
      sort_desc_def savings_ms_def)

lemma show_digit: "n < 10 \<Longrightarrow> show_nat n = [''0123456789'' ! n]"
  by (simp add: show_nat.simps)

lemma ranked_analyze: "analyze_data ranked_payload = Inr ranked_result"
  unfolding analyze_data_def
  apply (simp add: ranked_payload_def payload_with_def ranked_rich)
  apply (simp add: ranked_result_def sample_metrics_def rich_item_def has_audit_def display_of_def
      example_defs rich_recommendation_def savings_ms_def overallSavingsMs_of_def show_int_def
      show_digit double_of_numeral)
  done

text \<open>
  C4, as stated, fails on the richer variant, which has no test on the title: an audit with
  an empty title, a score below 1 and savings above 100 ms is returned.
\<close>

theorem rich_variant_untitled_counterexample:
  "analyze_data ranked_payload = Inr ranked_result
   \<and> map Recommendation.title (AnalyzeResult.recommendations ranked_result) = [''T3'', ''T1'', []]
   \<and> rich_selected ranked_audits =
        [opportunity ''T3'' (Value 0) 7000, opportunity ''T1'' (Value (1 / 2)) 5000,
         opportunity [] (Value 0) 3000]
   \<and> PageSpeedAudit.title (opportunity [] (Value 0) 3000) = []"
  by (simp add: ranked_analyze ranked_rich)
     (simp add: ranked_result_def rich_item_def opportunity_def)

text \<open>
  C4, amended. The simple variant returns the projection of at most 3 audits, sorted by
  descending \<open>numericValue\<close> (0 when missing), each looked up from an audit reference
  and with a non-empty title and a score below 1. The richer variant returns the
  projection of at most 3 of the audits of the payload, sorted by descending
  \<open>overallSavingsMs\<close>, each with a score below 1 and savings above 100 ms; it does not
  test the title.
\<close>

theorem extractor_recommendations:
  "ApiResult.recommendations (extractResult payload) = map simple_recommendation (simple_selected payload)
   \<and> length (ApiResult.recommendations (extractResult payload)) \<le> 3
   \<and> sorted_wrt (\<lambda>a b. numeric_or_0 b \<le> numeric_or_0 a) (simple_selected payload)
   \<and> (\<forall>audit\<in>set (simple_selected payload).
         PageSpeedAudit.title audit \<noteq> [] \<and>
         (\<exists>s. PageSpeedAudit.score audit = Value s \<and> s < 1) \<and>
         (\<exists>perf refs. performance_of payload = Some perf \<and> auditRefs perf = Some refs \<and>
            (\<exists>ref\<in>set refs. map_of (audits_of payload) (ref_id ref) = Some audit)))
   \<and> (analyze_data payload = Inr result \<longrightarrow>
         (\<exists>lighthouse auds. lighthouseResult payload = Some lighthouse \<and>
            audits lighthouse = Some auds \<and>
            AnalyzeResult.recommendations result = map rich_recommendation (rich_selected auds)) \<and>
         length (AnalyzeResult.recommendations result) \<le> 3 \<and>
         sorted_wrt (\<lambda>a b. getSavingsMs b \<le> getSavingsMs a) (AnalyzeResult.recommendations result))
   \<and> length (rich_selected auds) \<le> 3
   \<and> sorted_wrt (\<lambda>a b. savings_ms b \<le> savings_ms a) (rich_selected auds)
   \<and> (\<forall>audit\<in>set (rich_selected auds).
         (\<exists>s. PageSpeedAudit.score audit = Value s \<and> s < 1) \<and>
         (\<exists>v. overallSavingsMs_of audit = Some v \<and> savings_ms audit = v \<and> 100 < v) \<and>
         audit \<in> snd ` set auds)"
proof (intro conjI ballI impI)
  show "ApiResult.recommendations (extractResult payload) = map simple_recommendation (simple_selected payload)"
    by (simp add: extractResult_def)
  show "length (ApiResult.recommendations (extractResult payload)) \<le> 3"
    by (simp add: extractResult_def simple_selected_def split: option.splits)
  show "sorted_wrt (\<lambda>a b. numeric_or_0 b \<le> numeric_or_0 a) (simple_selected payload)"
    by (simp add: simple_selected_def top_sorted split: option.splits)
  show "length (rich_selected auds) \<le> 3"
    by (simp add: rich_selected_def)
  show "sorted_wrt (\<lambda>a b. savings_ms b \<le> savings_ms a) (rich_selected auds)"
    unfolding rich_selected_def by (rule top_sorted)
next
  fix audit
  assume "audit \<in> set (simple_selected payload)"
  from simple_selected_member [OF this]
  show "PageSpeedAudit.title audit \<noteq> []"
    and "\<exists>s. PageSpeedAudit.score audit = Value s \<and> s < 1"
    and "\<exists>perf refs. performance_of payload = Some perf \<and> auditRefs perf = Some refs \<and>
            (\<exists>ref\<in>set refs. map_of (audits_of payload) (ref_id ref) = Some audit)"
    by (auto simp: nullish_less_1)
next
  fix audit
  assume "audit \<in> set (rich_selected auds)"
  from rich_selected_member [OF this]
  show "\<exists>s. PageSpeedAudit.score audit = Value s \<and> s < 1"
    and "\<exists>v. overallSavingsMs_of audit = Some v \<and> savings_ms audit = v \<and> 100 < v"
    and "audit \<in> snd ` set auds"
    by (auto simp: rich_filter_iff savings_ms_def)
next
  assume "analyze_data payload = Inr result"
  from analyze_data_Inr [OF this] obtain lighthouse auds'
    where l: "lighthouseResult payload = Some lighthouse" and a: "audits lighthouse = Some auds'"
      and r: "AnalyzeResult.recommendations result = map rich_recommendation (rich_selected auds')"
    by auto
  from l a r show "\<exists>lighthouse auds. lighthouseResult payload = Some lighthouse \<and>
            audits lighthouse = Some auds \<and>
            AnalyzeResult.recommendations result = map rich_recommendation (rich_selected auds)"
    by blast
  show "length (AnalyzeResult.recommendations result) \<le> 3"
    by (simp add: r rich_selected_def)
  have "sorted_wrt (\<lambda>a b. savings_ms b \<le> savings_ms a) (rich_selected auds')"
    unfolding rich_selected_def by (rule top_sorted)
  then show "sorted_wrt (\<lambda>a b. getSavingsMs b \<le> getSavingsMs a) (AnalyzeResult.recommendations result)"
    by (simp add: r sorted_wrt_map getSavingsMs_rich)
qed

theorem extractor_recommendations_witness:
  "simple_selected ranked_payload =
     [opportunity ''T3'' (Value 0) 7000, opportunity ''T1'' (Value (1 / 2)) 5000]
   \<and> analyze_data ranked_payload = Inr ranked_result
   \<and> length (ApiResult.recommendations (extractResult ranked_payload)) \<le> 3
   \<and> PageSpeedAudit.title (opportunity ''T1'' (Value (1 / 2)) 5000) \<noteq> []
   \<and> (\<exists>s. PageSpeedAudit.score (opportunity ''T1'' (Value (1 / 2)) 5000) = Value s \<and> s < 1)
   \<and> length (AnalyzeResult.recommendations ranked_result) \<le> 3
   \<and> sorted_wrt (\<lambda>a b. getSavingsMs b \<le> getSavingsMs a) (AnalyzeResult.recommendations ranked_result)
   \<and> (\<exists>v. overallSavingsMs_of (opportunity [] (Value 0) 3000) = Some v \<and> 100 < v)"
proof -
  note t = extractor_recommendations [of ranked_payload ranked_result ranked_audits]
  have s: "simple_selected ranked_payload =
     [opportunity ''T3'' (Value 0) 7000, opportunity ''T1'' (Value (1 / 2)) 5000]"
    by (rule ranked_simple)
  have a: "analyze_data ranked_payload = Inr ranked_result"
    by (rule ranked_analyze)
  from t have "length (ApiResult.recommendations (extractResult ranked_payload)) \<le> 3"
    by (rule conjunct1 [OF conjunct2])
  moreover from t s have "PageSpeedAudit.title (opportunity ''T1'' (Value (1 / 2)) 5000) \<noteq> []"
    and "\<exists>s. PageSpeedAudit.score (opportunity ''T1'' (Value (1 / 2)) 5000) = Value s \<and> s < 1"
    by simp_all
  moreover from t a have "length (AnalyzeResult.recommendations ranked_result) \<le> 3"
    and "sorted_wrt (\<lambda>a b. getSavingsMs b \<le> getSavingsMs a) (AnalyzeResult.recommendations ranked_result)"
    by simp_all
  moreover from t have "\<forall>audit\<in>set (rich_selected ranked_audits).
         (\<exists>s. PageSpeedAudit.score audit = Value s \<and> s < 1) \<and>
         (\<exists>v. overallSavingsMs_of audit = Some v \<and> savings_ms audit = v \<and> 100 < v) \<and>
         audit \<in> snd ` set ranked_audits"
    by (elim conjE)
  then have "\<exists>v. overallSavingsMs_of (opportunity [] (Value 0) 3000) = Some v \<and> 100 < v"
    unfolding ranked_rich by auto
  ultimately show ?thesis using s a by blast
qed

text \<open>
  C10. An audit whose score is absent (\<open>undefined\<close> or \<open>null\<close>) is in neither variant's
  list, whatever its savings: the simple variant reads the score as 1, which is not below 1,
  and the filter of the richer variant rejects it.
\<close>

theorem absent_score_never_recommended:
  "(PageSpeedAudit.score audit = Undefined \<or> PageSpeedAudit.score audit = Null \<longrightarrow>
      nullish_or (PageSpeedAudit.score audit) (1::rat) = 1
      \<and> \<not> nullish_or (PageSpeedAudit.score audit) 1 < 1
      \<and> \<not> rich_filter audit
      \<and> audit \<notin> set (simple_selected payload)
      \<and> audit \<notin> set (rich_selected auds))
   \<and> ApiResult.recommendations (extractResult payload) = map simple_recommendation (simple_selected payload)
   \<and> (analyze_data payload = Inr result \<longrightarrow>
        (\<exists>lighthouse auds'. lighthouseResult payload = Some lighthouse \<and>
           audits lighthouse = Some auds' \<and>
           AnalyzeResult.recommendations result = map rich_recommendation (rich_selected auds')))"
proof (intro conjI impI)
  assume absent: "PageSpeedAudit.score audit = Undefined \<or> PageSpeedAudit.score audit = Null"
  then show one: "nullish_or (PageSpeedAudit.score audit) (1::rat) = 1" by auto
  then show not_less: "\<not> nullish_or (PageSpeedAudit.score audit) 1 < 1" by simp
  from absent show not_rich: "\<not> rich_filter audit"
    by (auto simp: rich_filter_iff)
  from not_less show "audit \<notin> set (simple_selected payload)"
    using simple_selected_member [of audit payload] by blast
  from not_rich show "audit \<notin> set (rich_selected auds)"
    using rich_selected_member [of audit auds] by blast
next
  show "ApiResult.recommendations (extractResult payload) = map simple_recommendation (simple_selected payload)"
    by (simp add: extractResult_def)
next
  assume "analyze_data payload = Inr result"
  from analyze_data_Inr [OF this]
  show "\<exists>lighthouse auds'. lighthouseResult payload = Some lighthouse \<and>
           audits lighthouse = Some auds' \<and>
           AnalyzeResult.recommendations result = map rich_recommendation (rich_selected auds')"
    by auto
qed

theorem absent_score_never_recommended_witness:
  "PageSpeedAudit.score (opportunity ''T2'' Undefined 9000) = Undefined
   \<and> opportunity ''T2'' Undefined 9000 \<in> snd ` set ranked_audits
   \<and> opportunity ''T2'' Undefined 9000 \<notin> set (simple_selected ranked_payload)
   \<and> opportunity ''T2'' Undefined 9000 \<notin> set (rich_selected ranked_audits)
   \<and> PageSpeedAudit.score (opportunity ''T5'' Null 8000) = Null
   \<and> opportunity ''T5'' Null 8000 \<in> snd ` set ranked_audits
   \<and> opportunity ''T5'' Null 8000 \<notin> set (simple_selected ranked_payload)
   \<and> opportunity ''T5'' Null 8000 \<notin> set (rich_selected ranked_audits)
   \<and> analyze_data ranked_payload = Inr ranked_result
   \<and> map Recommendation.title (AnalyzeResult.recommendations ranked_result) = [''T3'', ''T1'', []]
   \<and> map Recommendation.title (ApiResult.recommendations (extractResult ranked_payload)) = [''T3'', ''T1'']"
proof -
  have u: "PageSpeedAudit.score (opportunity ''T2'' Undefined 9000) = Undefined"
    and n: "PageSpeedAudit.score (opportunity ''T5'' Null 8000) = Null"
    by (simp_all add: opportunity_def)
  have m: "opportunity ''T2'' Undefined 9000 \<in> snd ` set ranked_audits"
    "opportunity ''T5'' Null 8000 \<in> snd ` set ranked_audits"
    by (simp_all add: ranked_audits_def)
  have a: "analyze_data ranked_payload = Inr ranked_result"
    by (rule ranked_analyze)
  have r: "map Recommendation.title (AnalyzeResult.recommendations ranked_result) = [''T3'', ''T1'', []]"
    by (simp add: ranked_result_def rich_item_def)
  have "map Recommendation.title (ApiResult.recommendations (extractResult ranked_payload))
          = map Recommendation.title (map simple_recommendation (simple_selected ranked_payload))"
    using absent_score_never_recommended [of "opportunity ''T2'' Undefined 9000" ranked_payload]
    by simp
  then have e: "map Recommendation.title (ApiResult.recommendations (extractResult ranked_payload)) = [''T3'', ''T1'']"
    by (simp add: ranked_simple simple_recommendation_def opportunity_def)
  from u absent_score_never_recommended
    [of "opportunity ''T2'' Undefined 9000" ranked_payload ranked_audits]
  have "opportunity ''T2'' Undefined 9000 \<notin> set (simple_selected ranked_payload)"
    and "opportunity ''T2'' Undefined 9000 \<notin> set (rich_selected ranked_audits)"
    by simp_all
  moreover from n absent_score_never_recommended
    [of "opportunity ''T5'' Null 8000" ranked_payload ranked_audits]
  have "opportunity ''T5'' Null 8000 \<notin> set (simple_selected ranked_payload)"
    and "opportunity ''T5'' Null 8000 \<notin> set (rich_selected ranked_audits)"
    by simp_all
  ultimately show ?thesis using u n m a r e by blast
qed

lemma analyze_data_performance:
  assumes "analyze_data payload = Inr result" and "performance_of payload = Some perf"
  shows "AnalyzeResult.score result = rounded_score (Performance.score perf)"
  using analyze_data_Inr [OF assms(1)] assms(2) by (auto simp: performance_of_def)

lemma exponent_100: "exponent 100 = 6"
  using exponent_eqI [of 6 100] by simp

lemma percent_double:
  fixes s :: rat
  assumes "0 \<le> s" and "s \<le> 1"
  shows "0 \<le> double_of (s * 100)" and "double_of (s * 100) \<le> 100"
    and "\<bar>double_of (s * 100) - s * 100\<bar> \<le> 1 / 2 ^ 47"
proof -
  let ?x = "s * 100"
  have x: "0 \<le> ?x" "?x \<le> 100" using assms by simp_all
  show "0 \<le> double_of ?x" using x(1) by (rule double_of_nonneg)
  have "double_of ?x \<le> of_int 100 * 2 powi 0"
    using x by (intro double_of_le) simp_all
  then show "double_of ?x \<le> 100" by simp
  have "(100::rat) < 2 ^ 1024" by simp
  with x have "\<bar>?x\<bar> < 2 ^ 1024" by simp
  then have "\<bar>double_of ?x - ?x\<bar> \<le> 2 powi (exponent \<bar>?x\<bar> - 53)"
    by (rule double_of_error)
  also have "\<dots> \<le> 2 powi (- 47)"
  proof (rule power_int_increasing)
    have "exponent \<bar>?x\<bar> \<le> exponent 100" using x by (intro exponent_mono) simp
    then show "exponent \<bar>?x\<bar> - 53 \<le> - 47" by (simp add: exponent_100)
  qed simp
  also have "\<dots> = 1 / 2 ^ 47" by (simp add: power_int_minus_divide)
  finally show "\<bar>double_of ?x - ?x\<bar> \<le> 1 / 2 ^ 47" .
qed

lemma round_percent_range:
  fixes s :: rat
  assumes "0 \<le> s" and "s \<le> 1"
  shows "0 \<le> round (double_of (s * 100)) \<and> round (double_of (s * 100)) \<le> 100"
proof -
  have "round (0::rat) \<le> round (double_of (s * 100))"
    using percent_double(1) [OF assms] by (rule round_mono)
  moreover have "round (double_of (s * 100)) \<le> round (100::rat)"
    using percent_double(2) [OF assms] by (rule round_mono)
  ultimately show ?thesis by simp
qed

lemma round_percent_error:
  fixes s :: rat
  assumes "0 \<le> s" and "s \<le> 1"
  shows "\<bar>of_int (round (double_of (s * 100))) - s * 100\<bar> \<le> 1 / 2 + 1 / 2 ^ 47"
proof -
  have "\<bar>of_int (round (double_of (s * 100))) - double_of (s * 100)\<bar> \<le> 1 / 2"
    by (rule of_int_round_abs_le)
  with percent_double(3) [OF assms] show ?thesis by linarith
qed

lemma double_of_0575: "double_of (double_0575 * 100) = 8092405580431359 / 2 ^ 47"
  using double_of_eqI [of 5 "2589569785738035 / 2 ^ 52 * 100" 8092405580431359]
  by (simp add: double_0575_def)

lemma round_0575: "round (8092405580431359 / 2 ^ 47 :: rat) = 57"
  by (rule round_unique') simp

text \<open>
  C5, as stated, fails on the richer variant, which has no default for the score: with the
  fraction absent the score is NaN, not 0.
\<close>

theorem undefined_score_counterexample:
  "analyze_data (payload_with Undefined metric_audits []) =
     Inr \<lparr>AnalyzeResult.score = NaN, AnalyzeResult.metrics = sample_metrics,
          AnalyzeResult.recommendations = []\<rparr>
   \<and> NaN \<noteq> Num 0"
  by (simp add: analyze_data_def payload_with_def metric_audits_def metric_audit_def
      has_audit_def display_of_def sample_metrics_def rich_selected_def rich_filter_def sort_desc_def)

text \<open>
  C5, amended. In the simple variant the score is the double product of the fraction and
  100, rounded to the nearest integer, and 0 when the category or its fraction is absent;
  for a fraction \<open>s\<close> in \<open>[0, 1]\<close> it is an integer in \<open>[0, 100]\<close>, within
  \<open>1 / 2 + 2 ^ - 47\<close> of \<open>100 * s\<close>. The richer variant has no default: when the
  fraction is present and the call returns, its score is the same rounded value.
\<close>

theorem extractor_score:
  "(performance_of payload = None \<longrightarrow> ApiResult.score (extractResult payload) = 0)
   \<and> (performance_of payload = Some perf \<longrightarrow>
        (Performance.score perf = Undefined \<or> Performance.score perf = Null \<longrightarrow>
           ApiResult.score (extractResult payload) = 0)
        \<and> (Performance.score perf = Value s \<longrightarrow>
             ApiResult.score (extractResult payload) = round (double_of (s * 100))
             \<and> (0 \<le> s \<and> s \<le> 1 \<longrightarrow>
                  0 \<le> ApiResult.score (extractResult payload)
                  \<and> ApiResult.score (extractResult payload) \<le> 100
                  \<and> \<bar>of_int (ApiResult.score (extractResult payload)) - s * 100\<bar>
                      \<le> 1 / 2 + 1 / 2 ^ 47)
             \<and> (analyze_data payload = Inr result \<longrightarrow>
                  AnalyzeResult.score result = Num (of_int (ApiResult.score (extractResult payload))))))"
proof (intro conjI impI)
  assume "performance_of payload = None"
  then show "ApiResult.score (extractResult payload) = 0"
    by (simp add: extractResult_def)
next
  assume p: "performance_of payload = Some perf"
  {
    assume "Performance.score perf = Undefined \<or> Performance.score perf = Null"
    with p show "ApiResult.score (extractResult payload) = 0"
      by (auto simp: extractResult_def)
  }
  assume v: "Performance.score perf = Value s"
  with p show r: "ApiResult.score (extractResult payload) = round (double_of (s * 100))"
    by (simp add: extractResult_def)
  {
    assume "0 \<le> s \<and> s \<le> 1"
    then have s: "0 \<le> s" "s \<le> 1" by simp_all
    from round_percent_range [OF s]
    show "0 \<le> ApiResult.score (extractResult payload)"
      and "ApiResult.score (extractResult payload) \<le> 100"
      unfolding r by simp_all
    from round_percent_error [OF s]
    show "\<bar>of_int (ApiResult.score (extractResult payload)) - s * 100\<bar> \<le> 1 / 2 + 1 / 2 ^ 47"
      unfolding r .
  }
  assume "analyze_data payload = Inr result"
  from analyze_data_performance [OF this p]
  show "AnalyzeResult.score result = Num (of_int (ApiResult.score (extractResult payload)))"
    by (simp add: v r)
qed

theorem extractor_score_witness:
  "ApiResult.score (extractResult empty_payload) = 0
   \<and> ApiResult.score (extractResult (payload_with Undefined metric_audits [])) = 0
   \<and> ApiResult.score (extractResult (payload_with Null metric_audits [])) = 0
   \<and> ApiResult.score (extractResult ranked_payload) = 75
   \<and> 0 \<le> ApiResult.score (extractResult ranked_payload)
   \<and> ApiResult.score (extractResult ranked_payload) \<le> 100
   \<and> \<bar>of_int (ApiResult.score (extractResult ranked_payload)) - (3 / 4 :: rat) * 100\<bar>
       \<le> 1 / 2 + 1 / 2 ^ 47
   \<and> AnalyzeResult.score ranked_result = Num 75
   \<and> ApiResult.score (extractResult (payload_with (Value double_0575) metric_audits [])) = 57"
proof -
  have e: "performance_of empty_payload = None"
    by (simp add: performance_of_def empty_payload_def)
  have p: "performance_of (payload_with f auds refs) = Some \<lparr>Performance.score = f, auditRefs = Some refs\<rparr>"
    for f auds refs
    by (simp add: performance_of_def payload_with_def)
  have "ApiResult.score (extractResult empty_payload) = 0"
    using extractor_score [of empty_payload] e by simp
  moreover have "ApiResult.score (extractResult (payload_with Undefined metric_audits [])) = 0"
    using extractor_score [of "payload_with Undefined metric_audits []"
        "\<lparr>Performance.score = Undefined, auditRefs = Some []\<rparr>"] p
    by simp
  moreover have "ApiResult.score (extractResult (payload_with Null metric_audits [])) = 0"
    using extractor_score [of "payload_with Null metric_audits []"
        "\<lparr>Performance.score = Null, auditRefs = Some []\<rparr>"] p
    by simp
  moreover note t = extractor_score [of ranked_payload
        "\<lparr>Performance.score = Value (3 / 4), auditRefs = Some ranked_refs\<rparr>" "3 / 4" ranked_result]
  have q: "performance_of ranked_payload = Some \<lparr>Performance.score = Value (3 / 4), auditRefs = Some ranked_refs\<rparr>"
    by (simp add: ranked_payload_def p)
  from t q have n: "ApiResult.score (extractResult ranked_payload) = 75"
    by (simp add: double_of_numeral)
  moreover from t q have "0 \<le> ApiResult.score (extractResult ranked_payload)"
    and "ApiResult.score (extractResult ranked_payload) \<le> 100"
    and "\<bar>of_int (ApiResult.score (extractResult ranked_payload)) - (3 / 4 :: rat) * 100\<bar>
       \<le> 1 / 2 + 1 / 2 ^ 47"
    by (simp_all add: double_of_numeral)
  moreover from t q ranked_analyze n have "AnalyzeResult.score ranked_result = Num 75"
    by simp
  moreover have "ApiResult.score (extractResult (payload_with (Value double_0575) metric_audits [])) = 57"
  proof -
    have "ApiResult.score (extractResult (payload_with (Value double_0575) metric_audits []))
            = round (double_of (double_0575 * 100))"
      using extractor_score [of "payload_with (Value double_0575) metric_audits []"
          "\<lparr>Performance.score = Value double_0575, auditRefs = Some []\<rparr>" double_0575] p
      by simp
    then show ?thesis by (simp only: double_of_0575 round_0575)
  qed
  ultimately show ?thesis by blast
qed

text \<open>
  C6, as stated, fails on the richer variant, which has no placeholder: with the audit
  \<open>first-contentful-paint\<close> absent the call throws.
\<close>

theorem absent_metric_counterexample:
  "analyze_data (payload_with (Value (3 / 4)) audits_without_fcp []) = Inl TypeError
   \<and> map_of audits_without_fcp ''first-contentful-paint'' = None"
  by (simp add: analyze_data_def payload_with_def audits_without_fcp_def has_audit_def)

text \<open>
  C6, amended. In the simple variant each of the four metrics is the display value of its
  audit, and exactly \<open>"--"\<close> when the audit is absent from the audits mapping (or has no
  display value). The richer variant has no placeholder: it returns only when the four
  audits are present, and then each metric is the display value of its audit.
\<close>

theorem metric_display_values:
  "Metrics.fcp (ApiResult.metrics (extractResult payload)) =
      metric_display (audits_of payload) ''first-contentful-paint''
   \<and> Metrics.lcp (ApiResult.metrics (extractResult payload)) =
      metric_display (audits_of payload) ''largest-contentful-paint''
   \<and> Metrics.tbt (ApiResult.metrics (extractResult payload)) =
      metric_display (audits_of payload) ''total-blocking-time''
   \<and> Metrics.cls (ApiResult.metrics (extractResult payload)) =
      metric_display (audits_of payload) ''cumulative-layout-shift''
   \<and> (map_of auds k = None \<longrightarrow> metric_display auds k = ''--'')
   \<and> (map_of auds k = Some audit \<longrightarrow>
        (displayValue audit = Some v \<longrightarrow> metric_display auds k = v) \<and>
        (displayValue audit = None \<longrightarrow> metric_display auds k = ''--''))
   \<and> (analyze_data payload = Inr result \<longrightarrow>
        (\<exists>a1 a2 a3 a4.
           map_of (audits_of payload) ''first-contentful-paint'' = Some a1 \<and>
           AnalyzeMetrics.fcp (AnalyzeResult.metrics result) = displayValue a1 \<and>
           map_of (audits_of payload) ''largest-contentful-paint'' = Some a2 \<and>
           AnalyzeMetrics.lcp (AnalyzeResult.metrics result) = displayValue a2 \<and>
           map_of (audits_of payload) ''total-blocking-time'' = Some a3 \<and>
           AnalyzeMetrics.tbt (AnalyzeResult.metrics result) = displayValue a3 \<and>
           map_of (audits_of payload) ''cumulative-layout-shift'' = Some a4 \<and>
           AnalyzeMetrics.cls (AnalyzeResult.metrics result) = displayValue a4))"
proof (intro conjI impI)
  show "Metrics.fcp (ApiResult.metrics (extractResult payload)) =
      metric_display (audits_of payload) ''first-contentful-paint''"
    and "Metrics.lcp (ApiResult.metrics (extractResult payload)) =
      metric_display (audits_of payload) ''largest-contentful-paint''"
    and "Metrics.tbt (ApiResult.metrics (extractResult payload)) =
      metric_display (audits_of payload) ''total-blocking-time''"
    and "Metrics.cls (ApiResult.metrics (extractResult payload)) =
      metric_display (audits_of payload) ''cumulative-layout-shift''"
    by (simp_all add: extractResult_def)
next
  assume "map_of auds k = None"
  then show "metric_display auds k = ''--''" by (simp add: metric_display_def)
next
  assume a: "map_of auds k = Some audit"
  {
    assume "displayValue audit = Some v"
    with a show "metric_display auds k = v" by (simp add: metric_display_def)
  }
  assume "displayValue audit = None"
  with a show "metric_display auds k = ''--''" by (simp add: metric_display_def)
next
  assume "analyze_data payload = Inr result"
  from analyze_data_Inr [OF this] obtain lighthouse auds' where
    l: "lighthouseResult payload = Some lighthouse" and a: "audits lighthouse = Some auds'"
    and h: "has_audit auds' ''first-contentful-paint''" "has_audit auds' ''largest-contentful-paint''"
      "has_audit auds' ''total-blocking-time''" "has_audit auds' ''cumulative-layout-shift''"
    and m: "AnalyzeMetrics.fcp (AnalyzeResult.metrics result) = display_of auds' ''first-contentful-paint''"
      "AnalyzeMetrics.lcp (AnalyzeResult.metrics result) = display_of auds' ''largest-contentful-paint''"
      "AnalyzeMetrics.tbt (AnalyzeResult.metrics result) = display_of auds' ''total-blocking-time''"
      "AnalyzeMetrics.cls (AnalyzeResult.metrics result) = display_of auds' ''cumulative-layout-shift''"
    by auto
  have o: "audits_of payload = auds'" using l a by (simp add: audits_of_def)
  from h m show "\<exists>a1 a2 a3 a4.
           map_of (audits_of payload) ''first-contentful-paint'' = Some a1 \<and>
           AnalyzeMetrics.fcp (AnalyzeResult.metrics result) = displayValue a1 \<and>
           map_of (audits_of payload) ''largest-contentful-paint'' = Some a2 \<and>
           AnalyzeMetrics.lcp (AnalyzeResult.metrics result) = displayValue a2 \<and>
           map_of (audits_of payload) ''total-blocking-time'' = Some a3 \<and>
           AnalyzeMetrics.tbt (AnalyzeResult.metrics result) = displayValue a3 \<and>
           map_of (audits_of payload) ''cumulative-layout-shift'' = Some a4 \<and>
           AnalyzeMetrics.cls (AnalyzeResult.metrics result) = displayValue a4"
    unfolding o by (auto simp: has_audit_def display_of_def)
qed

theorem metric_display_values_witness:
  "Metrics.fcp (ApiResult.metrics (extractResult empty_payload)) = ''--''
   \<and> Metrics.lcp (ApiResult.metrics (extractResult empty_payload)) = ''--''
   \<and> Metrics.tbt (ApiResult.metrics (extractResult empty_payload)) = ''--''
   \<and> Metrics.cls (ApiResult.metrics (extractResult empty_payload)) = ''--''
   \<and> Metrics.tbt (ApiResult.metrics (extractResult ranked_payload)) = ''150 ms''
   \<and> Metrics.fcp
        (ApiResult.metrics (extractResult (payload_with (Value (3 / 4)) audits_without_fcp []))) = ''--''
   \<and> analyze_data ranked_payload = Inr ranked_result
   \<and> AnalyzeMetrics.tbt (AnalyzeResult.metrics ranked_result) = Some ''150 ms''"
proof -
  have e: "map_of (audits_of empty_payload) k = None" for k
    by (simp add: audits_of_def empty_payload_def)
  have r: "map_of (audits_of ranked_payload) ''total-blocking-time''
             = Some (metric_audit ''total-blocking-time'' ''150 ms'')"
    by (simp add: audits_of_def example_defs)
  have d: "displayValue (metric_audit ''total-blocking-time'' ''150 ms'') = Some ''150 ms''"
    by (simp add: metric_audit_def)
  have w: "map_of (audits_of (payload_with (Value (3 / 4)) audits_without_fcp []))
             ''first-contentful-paint'' = None"
    by (simp add: audits_of_def payload_with_def audits_without_fcp_def)
  have "Metrics.fcp (ApiResult.metrics (extractResult empty_payload)) = ''--''"
    using metric_display_values [of empty_payload "audits_of empty_payload" "''first-contentful-paint''"] e
    by simp
  moreover have "Metrics.lcp (ApiResult.metrics (extractResult empty_payload)) = ''--''"
    using metric_display_values [of empty_payload "audits_of empty_payload" "''largest-contentful-paint''"] e
    by simp
  moreover have "Metrics.tbt (ApiResult.metrics (extractResult empty_payload)) = ''--''"
    using metric_display_values [of empty_payload "audits_of empty_payload" "''total-blocking-time''"] e
    by simp
  moreover have "Metrics.cls (ApiResult.metrics (extractResult empty_payload)) = ''--''"
    using metric_display_values [of empty_payload "audits_of empty_payload" "''cumulative-layout-shift''"] e
    by simp
  moreover have "Metrics.tbt (ApiResult.metrics (extractResult ranked_payload)) = ''150 ms''"
    using metric_display_values [of ranked_payload "audits_of ranked_payload" "''total-blocking-time''"
        "metric_audit ''total-blocking-time'' ''150 ms''" "''150 ms''"] r d
    by simp
  moreover have "Metrics.fcp
        (ApiResult.metrics (extractResult (payload_with (Value (3 / 4)) audits_without_fcp []))) = ''--''"
    using metric_display_values [of "payload_with (Value (3 / 4)) audits_without_fcp []"
        "audits_of (payload_with (Value (3 / 4)) audits_without_fcp [])" "''first-contentful-paint''"] w
    by simp
  moreover have a: "analyze_data ranked_payload = Inr ranked_result"
    by (rule ranked_analyze)
  moreover have "AnalyzeMetrics.tbt (AnalyzeResult.metrics ranked_result) = Some ''150 ms''"
    using metric_display_values [of ranked_payload _ _ _ _ ranked_result] a r d
    by auto
  ultimately show ?thesis by blast
qed


section \<open>Properties of the routes\<close>

lemma startsWith_iff: "startsWith s p = (\<exists>rest. s = p @ rest)"
  by (induction s p rule: startsWith.induct) auto

lemma Promise_all_fail:
  "(\<exists>e. m = Inl e) \<or> (\<exists>e. d = Inl e) \<Longrightarrow> \<exists>e. Promise_all order m d = Inl e"
  by (cases m; cases d; cases order) auto

lemma fetchPageSpeed_fail:
  "call \<in> set (snd (fetchPageSpeed env up u strat)) \<Longrightarrow> up call = Responded r \<Longrightarrow> \<not> ok r \<Longrightarrow>
   \<exists>e. fst (fetchPageSpeed env up u strat) = Inl e"
  by (auto simp: fetchPageSpeed_def Let_def split: option.splits if_splits)

lemma analyzePageSpeed_fail:
  "call \<in> set (snd (analyzePageSpeed up u strat k)) \<Longrightarrow> up call = Responded r \<Longrightarrow> \<not> ok r \<Longrightarrow>
   \<exists>e. fst (analyzePageSpeed up u strat k) = Inl e"
  by (auto simp: analyzePageSpeed_def Let_def)

lemma pagespeed_POST_invalid:
  "falsy (RequestBody.url b) \<or> (\<exists>u. RequestBody.url b = Some u \<and> \<not> http_url_test u) \<Longrightarrow>
   pagespeed_POST env up order (Body b) = (NextResponse 400 (ErrorBody (Text invalid_url_message)), [])"
  by (auto simp: pagespeed_POST_def split: option.splits)

lemma pagespeed_POST_valid:
  "RequestBody.url b = Some u \<Longrightarrow> u \<noteq> [] \<Longrightarrow> http_url_test u \<Longrightarrow>
   pagespeed_POST env up order (Body b) =
     ((case Promise_all order (fst (fetchPageSpeed env up u Mobile)) (fst (fetchPageSpeed env up u Desktop)) of
         Inl e \<Rightarrow> NextResponse 500 (ErrorBody (message_of e))
       | Inr (pm, pd) \<Rightarrow>
           NextResponse 200
             (ResultBody \<lparr>PageSpeedReport.mobile = extractResult pm, PageSpeedReport.desktop = extractResult pd\<rparr>)),
      snd (fetchPageSpeed env up u Mobile) @ snd (fetchPageSpeed env up u Desktop))"
  by (simp add: pagespeed_POST_def case_prod_unfold Let_def)

lemma analyze_POST_missing:
  "falsy (RequestBody.url b) \<or> falsy (RequestBody.email b) \<Longrightarrow>
   analyze_POST env up order (Body b) = (NextResponse 400 (ErrorBody (Text required_message)), [])"
  by (cases "RequestBody.url b"; cases "RequestBody.email b") (auto simp: analyze_POST_def)

lemma analyze_POST_no_key:
  "RequestBody.url b = Some u \<Longrightarrow> u \<noteq> [] \<Longrightarrow> RequestBody.email b = Some e \<Longrightarrow> e \<noteq> [] \<Longrightarrow>
   falsy env \<Longrightarrow>
   analyze_POST env up order (Body b) = (NextResponse 500 (ErrorBody (Text no_key_message)), [])"
  by (cases env) (auto simp: analyze_POST_def)

lemma analyze_POST_valid:
  "RequestBody.url b = Some u \<Longrightarrow> u \<noteq> [] \<Longrightarrow> RequestBody.email b = Some e \<Longrightarrow> e \<noteq> [] \<Longrightarrow>
   env = Some k \<Longrightarrow> k \<noteq> [] \<Longrightarrow>
   analyze_POST env up order (Body b) =
     ((case Promise_all order (fst (analyzePageSpeed up u Mobile k)) (fst (analyzePageSpeed up u Desktop k)) of
         Inl e' \<Rightarrow> NextResponse 500 (ErrorBody (message_or_default (message_of e')))
       | Inr (rm, rd) \<Rightarrow>
           NextResponse 200
             (ResultBody \<lparr>AnalyzeReport.mobile = rm, AnalyzeReport.desktop = rd,
                          AnalyzeReport.url = u, AnalyzeReport.email = e\<rparr>)),
      snd (analyzePageSpeed up u Mobile k) @ snd (analyzePageSpeed up u Desktop k))"
  by (simp add: analyze_POST_def case_prod_unfold Let_def)

lemma pagespeed_POST_cases:
  obtains (none) "snd (pagespeed_POST env up order req) = []"
  | (valid) b u where "req = Body b" "RequestBody.url b = Some u" "u \<noteq> []" "http_url_test u"
proof (cases req)
  case NotJson
  then show ?thesis using none by (simp add: pagespeed_POST_def)
next
  case JsonNull
  then show ?thesis using none by (simp add: pagespeed_POST_def)
next
  case (Body b)
  show ?thesis
  proof (cases "falsy (RequestBody.url b) \<or> (\<exists>u. RequestBody.url b = Some u \<and> \<not> http_url_test u)")
    case True
    from pagespeed_POST_invalid [OF this] Body show ?thesis using none by simp
  next
    case False
    then obtain u where "RequestBody.url b = Some u" "u \<noteq> []" "http_url_test u"
      by (cases "RequestBody.url b") auto
    with Body show ?thesis using valid by blast
  qed
qed

lemma analyze_POST_cases:
  obtains (none) "snd (analyze_POST env up order req) = []"
  | (valid) b u e k where "req = Body b" "RequestBody.url b = Some u" "u \<noteq> []"
      "RequestBody.email b = Some e" "e \<noteq> []" "env = Some k" "k \<noteq> []"
proof (cases req)
  case NotJson
  then show ?thesis using none by (simp add: analyze_POST_def)
next
  case JsonNull
  then show ?thesis using none by (simp add: analyze_POST_def)
next
  case (Body b)
  show ?thesis
  proof (cases "falsy (RequestBody.url b) \<or> falsy (RequestBody.email b)")
    case True
    from analyze_POST_missing [OF this] Body show ?thesis using none by simp
  next
    case False
    then obtain u e where ue: "RequestBody.url b = Some u" "u \<noteq> []" "RequestBody.email b = Some e" "e \<noteq> []"
      by (cases "RequestBody.url b"; cases "RequestBody.email b") auto
    show ?thesis
    proof (cases "falsy env")
      case True
      from analyze_POST_no_key [OF ue this] Body show ?thesis using none by simp
    next
      case False
      then obtain k where "env = Some k" "k \<noteq> []" by (cases env) auto
      with ue Body show ?thesis using valid by blast
    qed
  qed
qed

text \<open>
  C8. In both routes the upstream calls made are none or the mobile and the desktop call, and
  when a call that was made is answered with a non-success HTTP status the response is a
  500 with an error body: it carries no result for either strategy.
\<close>

theorem upstream_failure_fails_request:
  "(call \<in> set (snd (pagespeed_POST env up order req)) \<and> up call = Responded r \<and> \<not> ok r \<longrightarrow>
      (\<exists>m. fst (pagespeed_POST env up order req) = NextResponse 500 (ErrorBody m)))
   \<and> (call \<in> set (snd (analyze_POST env up order req)) \<and> up call = Responded r \<and> \<not> ok r \<longrightarrow>
      (\<exists>m. fst (analyze_POST env up order req) = NextResponse 500 (ErrorBody m)))
   \<and> map req_strategy (snd (pagespeed_POST env up order req)) \<in> {[], [Mobile, Desktop]}
   \<and> map req_strategy (snd (analyze_POST env up order req)) \<in> {[], [Mobile, Desktop]}"
proof (intro conjI impI)
  assume a: "call \<in> set (snd (pagespeed_POST env up order req)) \<and> up call = Responded r \<and> \<not> ok r"
  show "\<exists>m. fst (pagespeed_POST env up order req) = NextResponse 500 (ErrorBody m)"
  proof (cases env up order req rule: pagespeed_POST_cases)
    case none
    with a show ?thesis by simp
  next
    case (valid b u)
    note v = pagespeed_POST_valid [OF valid(2-4), of env up order]
    from a have "call \<in> set (snd (fetchPageSpeed env up u Mobile)) \<or>
                 call \<in> set (snd (fetchPageSpeed env up u Desktop))"
      by (simp add: valid(1) v)
    with a have "(\<exists>e. fst (fetchPageSpeed env up u Mobile) = Inl e) \<or>
                 (\<exists>e. fst (fetchPageSpeed env up u Desktop) = Inl e)"
      using fetchPageSpeed_fail by blast
    from Promise_all_fail [OF this, of order] show ?thesis
      by (auto simp: valid(1) v)
  qed
next
  assume a: "call \<in> set (snd (analyze_POST env up order req)) \<and> up call = Responded r \<and> \<not> ok r"
  show "\<exists>m. fst (analyze_POST env up order req) = NextResponse 500 (ErrorBody m)"
  proof (cases env up order req rule: analyze_POST_cases)
    case none
    with a show ?thesis by simp
  next
    case (valid b u e k)
    note v = analyze_POST_valid [OF valid(2-7), of up order]
    from a have "call \<in> set (snd (analyzePageSpeed up u Mobile k)) \<or>
                 call \<in> set (snd (analyzePageSpeed up u Desktop k))"
      by (simp add: valid(1) v)
    with a have "(\<exists>e. fst (analyzePageSpeed up u Mobile k) = Inl e) \<or>
                 (\<exists>e. fst (analyzePageSpeed up u Desktop k) = Inl e)"
      using analyzePageSpeed_fail by blast
    from Promise_all_fail [OF this, of order] show ?thesis
      by (auto simp: valid(1) v)
  qed
next
  show "map req_strategy (snd (pagespeed_POST env up order req)) \<in> {[], [Mobile, Desktop]}"
  proof (cases env up order req rule: pagespeed_POST_cases)
    case none
    then show ?thesis by simp
  next
    case (valid b u)
    show ?thesis
      by (simp add: valid(1) pagespeed_POST_valid [OF valid(2-4)])
         (auto simp: fetchPageSpeed_def Let_def split: option.splits)
  qed
next
  show "map req_strategy (snd (analyze_POST env up order req)) \<in> {[], [Mobile, Desktop]}"
  proof (cases env up order req rule: analyze_POST_cases)
    case none
    then show ?thesis by simp
  next
    case (valid b u e k)
    show ?thesis
      by (simp add: valid(1) analyze_POST_valid [OF valid(2-7)] analyzePageSpeed_def Let_def)
  qed
qed

lemma sample_analyze:
  "analyze_data (payload_with (Value (3 / 4)) metric_audits []) = Inr sample_result"
  by (simp add: analyze_data_def payload_with_def metric_audits_def metric_audit_def
      has_audit_def display_of_def sample_result_def sample_metrics_def rich_selected_def
      rich_filter_def sort_desc_def double_of_numeral)

lemma sample_analyzePageSpeed:
  "analyzePageSpeed upstream_sample u strat ''KEY'' = (Inr sample_result, [analyze_call u strat])"
  by (simp add: analyzePageSpeed_def upstream_sample_def ok_def sample_analyze analyze_call_def)

lemma sample_analyze_POST:
  assumes "u \<noteq> []" and "e \<noteq> []"
  shows "analyze_POST (Some ''KEY'') upstream_sample order (request_with u (Some e)) =
     (NextResponse 200
        (ResultBody \<lparr>AnalyzeReport.mobile = sample_result, AnalyzeReport.desktop = sample_result,
                     AnalyzeReport.url = u, AnalyzeReport.email = e\<rparr>),
      [analyze_call u Mobile, analyze_call u Desktop])"
  unfolding request_with_def
  by (subst analyze_POST_valid [of _ u e _ "''KEY''"]) (simp_all add: assms sample_analyzePageSpeed)

lemma not_http_ftp: "\<not> http_url_test ''ftp://x.com''"
  by (simp add: http_url_test_def lower_char_def)

text \<open>
  C7, as stated, fails on the analyze route, which tests the url for presence only: with
  the url \<open>ftp://x.com\<close> both upstream calls are made.
\<close>

theorem analyze_accepts_ftp_counterexample:
  "snd (analyze_POST (Some ''KEY'') upstream_sample MobileFirst (request_with ''ftp://x.com'' (Some ''a@b.c'')))
     = [analyze_call ''ftp://x.com'' Mobile, analyze_call ''ftp://x.com'' Desktop]
   \<and> status_of (fst (analyze_POST (Some ''KEY'') upstream_sample MobileFirst
                        (request_with ''ftp://x.com'' (Some ''a@b.c'')))) = 200
   \<and> \<not> http_url_test ''ftp://x.com''"
  by (simp add: sample_analyze_POST not_http_ftp)

text \<open>
  C7, amended. In the pagespeed route a request whose body is a JSON value other than
  \<open>null\<close> and whose url is absent, empty or does not start with \<open>http://\<close> or
  \<open>https://\<close> in any letter case is answered 400. In the analyze route a request whose
  body is a JSON value other than \<open>null\<close> and whose url or email is absent or empty is
  answered 400; the form of the url is not tested. In both routes a request whose body is
  not JSON or is \<open>null\<close>, which has no url field, is answered 500. In each of these cases
  no upstream call is made: a request that causes an upstream call has a url that passes
  the test of its route.
\<close>

theorem invalid_url_rejected:
  "(falsy (RequestBody.url b) \<or> (\<exists>u. RequestBody.url b = Some u \<and> \<not> http_url_test u) \<longrightarrow>
      pagespeed_POST env up order (Body b) =
        (NextResponse 400 (ErrorBody (Text invalid_url_message)), []))
   \<and> http_url_test u =
       (\<exists>rest. map lower_char u = ''http://'' @ rest \<or> map lower_char u = ''https://'' @ rest)
   \<and> (falsy (RequestBody.url b) \<or> falsy (RequestBody.email b) \<longrightarrow>
        analyze_POST env up order (Body b) =
          (NextResponse 400 (ErrorBody (Text required_message)), []))
   \<and> (req = NotJson \<or> req = JsonNull \<longrightarrow>
        pagespeed_POST env up order req = (NextResponse 500 (ErrorBody RuntimeText), []) \<and>
        analyze_POST env up order req = (NextResponse 500 (ErrorBody RuntimeText), []))
   \<and> (snd (pagespeed_POST env up order req) \<noteq> [] \<longrightarrow>
        (\<exists>b' u'. req = Body b' \<and> RequestBody.url b' = Some u' \<and> u' \<noteq> [] \<and> http_url_test u'))
   \<and> (snd (analyze_POST env up order req) \<noteq> [] \<longrightarrow>
        (\<exists>b' u' e'. req = Body b' \<and> RequestBody.url b' = Some u' \<and> u' \<noteq> [] \<and>
           RequestBody.email b' = Some e' \<and> e' \<noteq> []))"
proof (intro conjI impI)
  assume "falsy (RequestBody.url b) \<or> (\<exists>u. RequestBody.url b = Some u \<and> \<not> http_url_test u)"
  then show "pagespeed_POST env up order (Body b) =
        (NextResponse 400 (ErrorBody (Text invalid_url_message)), [])"
    by (rule pagespeed_POST_invalid)
next
  show "http_url_test u =
       (\<exists>rest. map lower_char u = ''http://'' @ rest \<or> map lower_char u = ''https://'' @ rest)"
    unfolding http_url_test_def startsWith_iff by blast
next
  assume "falsy (RequestBody.url b) \<or> falsy (RequestBody.email b)"
  then show "analyze_POST env up order (Body b) =
          (NextResponse 400 (ErrorBody (Text required_message)), [])"
    by (rule analyze_POST_missing)
next
  assume "req = NotJson \<or> req = JsonNull"
  then show "pagespeed_POST env up order req = (NextResponse 500 (ErrorBody RuntimeText), [])"
    and "analyze_POST env up order req = (NextResponse 500 (ErrorBody RuntimeText), [])"
    by (auto simp: pagespeed_POST_def analyze_POST_def)
next
  assume "snd (pagespeed_POST env up order req) \<noteq> []"
  then show "\<exists>b' u'. req = Body b' \<and> RequestBody.url b' = Some u' \<and> u' \<noteq> [] \<and> http_url_test u'"
    by (cases env up order req rule: pagespeed_POST_cases) auto
next
  assume "snd (analyze_POST env up order req) \<noteq> []"
  then show "\<exists>b' u' e'. req = Body b' \<and> RequestBody.url b' = Some u' \<and> u' \<noteq> [] \<and>
           RequestBody.email b' = Some e' \<and> e' \<noteq> []"
    by (cases env up order req rule: analyze_POST_cases) auto
qed

theorem invalid_url_rejected_witness:
  "\<not> http_url_test ''ftp://x.com''
   \<and> pagespeed_POST (Some ''KEY'') upstream_sample MobileFirst (request_with ''ftp://x.com'' (Some ''a@b.c''))
       = (NextResponse 400 (ErrorBody (Text invalid_url_message)), [])
   \<and> pagespeed_POST (Some ''KEY'') upstream_sample MobileFirst (request_with [] (Some ''a@b.c''))
       = (NextResponse 400 (ErrorBody (Text invalid_url_message)), [])
   \<and> http_url_test ''HTTPS://x.com''
   \<and> analyze_POST (Some ''KEY'') upstream_sample MobileFirst (request_with [] (Some ''a@b.c''))
       = (NextResponse 400 (ErrorBody (Text required_message)), [])
   \<and> analyze_POST (Some ''KEY'') upstream_sample MobileFirst (request_with ''ftp://x.com'' None)
       = (NextResponse 400 (ErrorBody (Text required_message)), [])
   \<and> pagespeed_POST (Some ''KEY'') upstream_sample MobileFirst NotJson
       = (NextResponse 500 (ErrorBody RuntimeText), [])
   \<and> analyze_POST (Some ''KEY'') upstream_sample MobileFirst JsonNull
       = (NextResponse 500 (ErrorBody RuntimeText), [])
   \<and> snd (analyze_POST (Some ''KEY'') upstream_sample MobileFirst
             (request_with ''ftp://x.com'' (Some ''a@b.c''))) \<noteq> []
   \<and> (\<exists>b' u' e'. request_with ''ftp://x.com'' (Some ''a@b.c'') = Body b' \<and>
         RequestBody.url b' = Some u' \<and> u' \<noteq> [] \<and> RequestBody.email b' = Some e' \<and> e' \<noteq> [])"
proof (intro conjI)
  show n: "\<not> http_url_test ''ftp://x.com''" by (rule not_http_ftp)
  show "pagespeed_POST (Some ''KEY'') upstream_sample MobileFirst (request_with ''ftp://x.com'' (Some ''a@b.c''))
       = (NextResponse 400 (ErrorBody (Text invalid_url_message)), [])"
    using invalid_url_rejected
      [where b = "\<lparr>RequestBody.url = Some ''ftp://x.com'', RequestBody.email = Some ''a@b.c''\<rparr>"
         and env = "Some ''KEY''" and up = upstream_sample and order = MobileFirst] n
    by (simp add: request_with_def)
  show "pagespeed_POST (Some ''KEY'') upstream_sample MobileFirst (request_with [] (Some ''a@b.c''))
       = (NextResponse 400 (ErrorBody (Text invalid_url_message)), [])"
    using invalid_url_rejected
      [where b = "\<lparr>RequestBody.url = Some [], RequestBody.email = Some ''a@b.c''\<rparr>"
         and env = "Some ''KEY''" and up = upstream_sample and order = MobileFirst]
    by (simp add: request_with_def)
  show "http_url_test ''HTTPS://x.com''"
    using invalid_url_rejected [where u = "''HTTPS://x.com''"]
    by (simp add: lower_char_def)
  show "analyze_POST (Some ''KEY'') upstream_sample MobileFirst (request_with [] (Some ''a@b.c''))
       = (NextResponse 400 (ErrorBody (Text required_message)), [])"
    using invalid_url_rejected
      [where b = "\<lparr>RequestBody.url = Some [], RequestBody.email = Some ''a@b.c''\<rparr>"
         and env = "Some ''KEY''" and up = upstream_sample and order = MobileFirst]
    by (simp add: request_with_def)
  show "analyze_POST (Some ''KEY'') upstream_sample MobileFirst (request_with ''ftp://x.com'' None)
       = (NextResponse 400 (ErrorBody (Text required_message)), [])"
    using invalid_url_rejected
      [where b = "\<lparr>RequestBody.url = Some ''ftp://x.com'', RequestBody.email = None\<rparr>"
         and env = "Some ''KEY''" and up = upstream_sample and order = MobileFirst]
    by (simp add: request_with_def)
  show "pagespeed_POST (Some ''KEY'') upstream_sample MobileFirst NotJson
       = (NextResponse 500 (ErrorBody RuntimeText), [])"
    using invalid_url_rejected
      [where req = NotJson and env = "Some ''KEY''" and up = upstream_sample and order = MobileFirst]
    by simp
  show "analyze_POST (Some ''KEY'') upstream_sample MobileFirst JsonNull
       = (NextResponse 500 (ErrorBody RuntimeText), [])"
    using invalid_url_rejected
      [where req = JsonNull and env = "Some ''KEY''" and up = upstream_sample and order = MobileFirst]
    by simp
  show c: "snd (analyze_POST (Some ''KEY'') upstream_sample MobileFirst
             (request_with ''ftp://x.com'' (Some ''a@b.c''))) \<noteq> []"
    by (simp add: sample_analyze_POST)
  show "\<exists>b' u' e'. request_with ''ftp://x.com'' (Some ''a@b.c'') = Body b' \<and>
         RequestBody.url b' = Some u' \<and> u' \<noteq> [] \<and> RequestBody.email b' = Some e' \<and> e' \<noteq> []"
    using invalid_url_rejected
      [where req = "request_with ''ftp://x.com'' (Some ''a@b.c'')" and env = "Some ''KEY''"
         and up = upstream_sample and order = MobileFirst] c
    by blast
qed

theorem upstream_failure_fails_request_witness:
  "pagespeed_call ''https://x.com'' Desktop
     \<in> set (snd (pagespeed_POST (Some ''KEY'') upstream_desktop_down MobileFirst
                   (request_with ''https://x.com'' None)))
   \<and> upstream_desktop_down (pagespeed_call ''https://x.com'' Desktop)
       = Responded \<lparr>status = 503, body_text = ''Service Unavailable'', body_json = None\<rparr>
   \<and> \<not> ok \<lparr>status = 503, body_text = ''Service Unavailable'', body_json = None\<rparr>
   \<and> (\<exists>m. fst (pagespeed_POST (Some ''KEY'') upstream_desktop_down MobileFirst
                  (request_with ''https://x.com'' None)) = NextResponse 500 (ErrorBody m))
   \<and> analyze_call ''https://x.com'' Desktop
       \<in> set (snd (analyze_POST (Some ''KEY'') upstream_desktop_down MobileFirst
                     (request_with ''https://x.com'' (Some ''a@b.c''))))
   \<and> (\<exists>m. fst (analyze_POST (Some ''KEY'') upstream_desktop_down MobileFirst
                  (request_with ''https://x.com'' (Some ''a@b.c''))) = NextResponse 500 (ErrorBody m))"
proof -
  have h: "http_url_test ''https://x.com''"
    by (simp add: http_url_test_def lower_char_def)
  have c1: "pagespeed_call ''https://x.com'' Desktop
     \<in> set (snd (pagespeed_POST (Some ''KEY'') upstream_desktop_down MobileFirst
                   (request_with ''https://x.com'' None)))"
    unfolding request_with_def
    by (subst pagespeed_POST_valid [of _ "''https://x.com''"])
       (simp_all add: h fetchPageSpeed_def pagespeed_call_def Let_def)
  have c2: "analyze_call ''https://x.com'' Desktop
       \<in> set (snd (analyze_POST (Some ''KEY'') upstream_desktop_down MobileFirst
                     (request_with ''https://x.com'' (Some ''a@b.c''))))"
    unfolding request_with_def
    by (subst analyze_POST_valid [of _ "''https://x.com''" "''a@b.c''" _ "''KEY''"])
       (simp_all add: analyzePageSpeed_def analyze_call_def Let_def)
  have u1: "upstream_desktop_down (pagespeed_call ''https://x.com'' Desktop)
       = Responded \<lparr>status = 503, body_text = ''Service Unavailable'', body_json = None\<rparr>"
    and u2: "upstream_desktop_down (analyze_call ''https://x.com'' Desktop)
       = Responded \<lparr>status = 503, body_text = ''Service Unavailable'', body_json = None\<rparr>"
    by (simp_all add: upstream_desktop_down_def pagespeed_call_def analyze_call_def)
  have n: "\<not> ok \<lparr>status = 503, body_text = ''Service Unavailable'', body_json = None\<rparr>"
    by (simp add: ok_def)
  have "\<exists>m. fst (pagespeed_POST (Some ''KEY'') upstream_desktop_down MobileFirst
                  (request_with ''https://x.com'' None)) = NextResponse 500 (ErrorBody m)"
    using upstream_failure_fails_request
      [of "pagespeed_call ''https://x.com'' Desktop" "Some ''KEY''" upstream_desktop_down MobileFirst
          "request_with ''https://x.com'' None"
          "\<lparr>status = 503, body_text = ''Service Unavailable'', body_json = None\<rparr>"]
      c1 u1 n
    by blast
  moreover have "\<exists>m. fst (analyze_POST (Some ''KEY'') upstream_desktop_down MobileFirst
                  (request_with ''https://x.com'' (Some ''a@b.c''))) = NextResponse 500 (ErrorBody m)"
    using upstream_failure_fails_request
      [of "analyze_call ''https://x.com'' Desktop" "Some ''KEY''" upstream_desktop_down MobileFirst
          "request_with ''https://x.com'' (Some ''a@b.c'')"
          "\<lparr>status = 503, body_text = ''Service Unavailable'', body_json = None\<rparr>"]
      c2 u2 n
    by blast
  ultimately show ?thesis using c1 c2 u1 n by blast
qed

lemma erase_email_case:
  "erase_email (case x of Inl e' \<Rightarrow> NextResponse 500 (ErrorBody (f e'))
               | Inr (rm, rd) \<Rightarrow> NextResponse 200
                   (ResultBody \<lparr>AnalyzeReport.mobile = rm, AnalyzeReport.desktop = rd,
                                AnalyzeReport.url = u, AnalyzeReport.email = e\<rparr>))
   = (case x of Inl e' \<Rightarrow> NextResponse 500 (ErrorBody (f e'))
               | Inr (rm, rd) \<Rightarrow> NextResponse 200
                   (ResultBody \<lparr>AnalyzeReport.mobile = rm, AnalyzeReport.desktop = rd,
                                AnalyzeReport.url = u, AnalyzeReport.email = []\<rparr>))"
  by (simp split: sum.splits prod.splits)

lemma analyze_POST_email_independent:
  assumes "\<not> falsy e1" and "\<not> falsy e2"
  shows "snd (analyze_POST env up order (Body (b\<lparr>RequestBody.email := e1\<rparr>))) =
         snd (analyze_POST env up order (Body (b\<lparr>RequestBody.email := e2\<rparr>)))
       \<and> erase_email (fst (analyze_POST env up order (Body (b\<lparr>RequestBody.email := e1\<rparr>)))) =
         erase_email (fst (analyze_POST env up order (Body (b\<lparr>RequestBody.email := e2\<rparr>))))"
proof -
  from assms obtain a1 a2 where e: "e1 = Some a1" "a1 \<noteq> []" "e2 = Some a2" "a2 \<noteq> []"
    by (cases e1; cases e2) auto
  show ?thesis
  proof (cases "falsy (RequestBody.url b)")
    case True
    then show ?thesis by (simp add: analyze_POST_missing)
  next
    case False
    then obtain u where u: "RequestBody.url b = Some u" "u \<noteq> []"
      by (cases "RequestBody.url b") auto
    show ?thesis
    proof (cases "falsy env")
      case True
      with u e show ?thesis by (simp add: analyze_POST_no_key [where u = u])
    next
      case False
      then obtain k where k: "env = Some k" "k \<noteq> []" by (cases env) auto
      have "analyze_POST env up order (Body (b\<lparr>RequestBody.email := Some a\<rparr>)) =
        ((case Promise_all order (fst (analyzePageSpeed up u Mobile k)) (fst (analyzePageSpeed up u Desktop k)) of
         Inl e' \<Rightarrow> NextResponse 500 (ErrorBody (message_or_default (message_of e')))
       | Inr (rm, rd) \<Rightarrow>
           NextResponse 200
             (ResultBody \<lparr>AnalyzeReport.mobile = rm, AnalyzeReport.desktop = rd,
                          AnalyzeReport.url = u, AnalyzeReport.email = a\<rparr>)),
      snd (analyzePageSpeed up u Mobile k) @ snd (analyzePageSpeed up u Desktop k))"
        if "a \<noteq> []" for a
        using u k that by (intro analyze_POST_valid) simp_all
      from this [of a1] this [of a2] e show ?thesis
        by (simp add: erase_email_case)
    qed
  qed
qed

lemma analyze_POST_echo:
  assumes "fst (analyze_POST env up order (Body b)) = NextResponse st (ResultBody rep)"
  shows "RequestBody.email b = Some (AnalyzeReport.email rep) \<and>
         RequestBody.url b = Some (AnalyzeReport.url rep) \<and> st = 200"
proof (cases env up order "Body b" rule: analyze_POST_cases)
  case none
  from assms show ?thesis
  proof (cases "falsy (RequestBody.url b) \<or> falsy (RequestBody.email b)")
    case True
    from analyze_POST_missing [OF this, of env up order] assms show ?thesis by simp
  next
    case False
    then obtain u e where ue: "RequestBody.url b = Some u" "u \<noteq> []" "RequestBody.email b = Some e" "e \<noteq> []"
      by (cases "RequestBody.url b"; cases "RequestBody.email b") auto
    show ?thesis
    proof (cases "falsy env")
      case True
      from analyze_POST_no_key [OF ue this, of up order] assms show ?thesis by simp
    next
      case False
      then obtain k where k: "env = Some k" "k \<noteq> []" by (cases env) auto
      from analyze_POST_valid [OF ue k, of up order] assms ue show ?thesis
        by (auto split: sum.splits prod.splits)
    qed
  qed
next
  case (valid b' u e k)
  then have b: "RequestBody.url b = Some u" "u \<noteq> []" "RequestBody.email b = Some e" "e \<noteq> []"
    by simp_all
  from analyze_POST_valid [OF b valid(6,7), of up order] assms b show ?thesis
    by (auto split: sum.splits prod.splits)
qed

text \<open>
  C9, as stated, fails on the analyze route: the success body carries the submitted email,
  and a request with an empty email is answered 400 where the same request with an email
  is answered 200.
\<close>

theorem analyze_echoes_email_counterexample:
  "fst (analyze_POST (Some ''KEY'') upstream_sample MobileFirst (request_with ''https://x.com'' (Some ''a@b.c'')))
     = NextResponse 200
         (ResultBody \<lparr>AnalyzeReport.mobile = sample_result, AnalyzeReport.desktop = sample_result,
                      AnalyzeReport.url = ''https://x.com'', AnalyzeReport.email = ''a@b.c''\<rparr>)
   \<and> fst (analyze_POST (Some ''KEY'') upstream_sample MobileFirst (request_with ''https://x.com'' (Some [])))
     = NextResponse 400 (ErrorBody (Text required_message))"
  by (simp add: sample_analyze_POST) (simp add: request_with_def analyze_POST_missing)

text \<open>
  C9, amended. The pagespeed route never reads the email: requests that differ in the
  email only get the same response and cause the same upstream calls. The analyze route
  answers 400 when the email is absent or empty; for two non-empty emails it makes the same
  upstream calls and gives the same response up to the email field of the success body,
  which echoes the submitted email.
\<close>

theorem email_only_validated:
  "pagespeed_POST env up order (Body (b\<lparr>RequestBody.email := e1\<rparr>)) =
     pagespeed_POST env up order (Body (b\<lparr>RequestBody.email := e2\<rparr>))
   \<and> (\<not> falsy e1 \<and> \<not> falsy e2 \<longrightarrow>
        snd (analyze_POST env up order (Body (b\<lparr>RequestBody.email := e1\<rparr>))) =
          snd (analyze_POST env up order (Body (b\<lparr>RequestBody.email := e2\<rparr>)))
        \<and> erase_email (fst (analyze_POST env up order (Body (b\<lparr>RequestBody.email := e1\<rparr>)))) =
          erase_email (fst (analyze_POST env up order (Body (b\<lparr>RequestBody.email := e2\<rparr>)))))
   \<and> (falsy (RequestBody.email b) \<longrightarrow>
        analyze_POST env up order (Body b) =
          (NextResponse 400 (ErrorBody (Text required_message)), []))
   \<and> (fst (analyze_POST env up order (Body b)) = NextResponse st (ResultBody rep) \<longrightarrow>
        RequestBody.email b = Some (AnalyzeReport.email rep))"
proof (intro conjI impI)
  show "pagespeed_POST env up order (Body (b\<lparr>RequestBody.email := e1\<rparr>)) =
     pagespeed_POST env up order (Body (b\<lparr>RequestBody.email := e2\<rparr>))"
    by (simp add: pagespeed_POST_def)
next
  assume "\<not> falsy e1 \<and> \<not> falsy e2"
  then have "\<not> falsy e1" and "\<not> falsy e2" by simp_all
  from analyze_POST_email_independent [OF this, of env up order b]
  show "snd (analyze_POST env up order (Body (b\<lparr>RequestBody.email := e1\<rparr>))) =
          snd (analyze_POST env up order (Body (b\<lparr>RequestBody.email := e2\<rparr>)))"
    and "erase_email (fst (analyze_POST env up order (Body (b\<lparr>RequestBody.email := e1\<rparr>)))) =
          erase_email (fst (analyze_POST env up order (Body (b\<lparr>RequestBody.email := e2\<rparr>))))"
    by simp_all
next
  assume "falsy (RequestBody.email b)"
  then show "analyze_POST env up order (Body b) =
          (NextResponse 400 (ErrorBody (Text required_message)), [])"
    by (simp add: analyze_POST_missing)
next
  assume "fst (analyze_POST env up order (Body b)) = NextResponse st (ResultBody rep)"
  from analyze_POST_echo [OF this] show "RequestBody.email b = Some (AnalyzeReport.email rep)"
    by simp
qed

theorem email_only_validated_witness:
  "pagespeed_POST (Some ''KEY'') upstream_sample MobileFirst (request_with ''https://x.com'' (Some ''a@b.c''))
     = pagespeed_POST (Some ''KEY'') upstream_sample MobileFirst (request_with ''https://x.com'' None)
   \<and> snd (analyze_POST (Some ''KEY'') upstream_sample MobileFirst (request_with ''https://x.com'' (Some ''a@b.c'')))
     = snd (analyze_POST (Some ''KEY'') upstream_sample MobileFirst (request_with ''https://x.com'' (Some ''c@d.e'')))
   \<and> erase_email (fst (analyze_POST (Some ''KEY'') upstream_sample MobileFirst
                          (request_with ''https://x.com'' (Some ''a@b.c''))))
     = erase_email (fst (analyze_POST (Some ''KEY'') upstream_sample MobileFirst
                          (request_with ''https://x.com'' (Some ''c@d.e''))))
   \<and> analyze_POST (Some ''KEY'') upstream_sample MobileFirst (request_with ''https://x.com'' None)
     = (NextResponse 400 (ErrorBody (Text required_message)), [])
   \<and> fst (analyze_POST (Some ''KEY'') upstream_sample MobileFirst (request_with ''https://x.com'' (Some ''a@b.c'')))
     = NextResponse 200
         (ResultBody \<lparr>AnalyzeReport.mobile = sample_result, AnalyzeReport.desktop = sample_result,
                      AnalyzeReport.url = ''https://x.com'', AnalyzeReport.email = ''a@b.c''\<rparr>)
   \<and> RequestBody.email \<lparr>RequestBody.url = Some ''https://x.com'', RequestBody.email = Some ''a@b.c''\<rparr>
     = Some (AnalyzeReport.email
               \<lparr>AnalyzeReport.mobile = sample_result, AnalyzeReport.desktop = sample_result,
                AnalyzeReport.url = ''https://x.com'', AnalyzeReport.email = ''a@b.c''\<rparr>)"
proof -
  note t = email_only_validated
    [where env = "Some ''KEY''" and up = upstream_sample and order = MobileFirst
       and b = "\<lparr>RequestBody.url = Some ''https://x.com'', RequestBody.email = None\<rparr>"
       and ?e1.0 = "Some ''a@b.c''" and ?e2.0 = "Some ''c@d.e''"]
  have s: "fst (analyze_POST (Some ''KEY'') upstream_sample MobileFirst
                  (request_with ''https://x.com'' (Some ''a@b.c'')))
     = NextResponse 200
         (ResultBody \<lparr>AnalyzeReport.mobile = sample_result, AnalyzeReport.desktop = sample_result,
                      AnalyzeReport.url = ''https://x.com'', AnalyzeReport.email = ''a@b.c''\<rparr>)"
    by (simp add: sample_analyze_POST)
  have "pagespeed_POST (Some ''KEY'') upstream_sample MobileFirst (request_with ''https://x.com'' (Some ''a@b.c''))
     = pagespeed_POST (Some ''KEY'') upstream_sample MobileFirst (request_with ''https://x.com'' None)"
    using email_only_validated
      [where env = "Some ''KEY''" and up = upstream_sample and order = MobileFirst
         and b = "\<lparr>RequestBody.url = Some ''https://x.com'', RequestBody.email = None\<rparr>"
         and ?e1.0 = "Some ''a@b.c''" and ?e2.0 = None]
    by (simp add: request_with_def)
  moreover from t have "snd (analyze_POST (Some ''KEY'') upstream_sample MobileFirst
                               (request_with ''https://x.com'' (Some ''a@b.c'')))
     = snd (analyze_POST (Some ''KEY'') upstream_sample MobileFirst (request_with ''https://x.com'' (Some ''c@d.e'')))"
    by (simp add: request_with_def)
  moreover from t have "erase_email (fst (analyze_POST (Some ''KEY'') upstream_sample MobileFirst
                          (request_with ''https://x.com'' (Some ''a@b.c''))))
     = erase_email (fst (analyze_POST (Some ''KEY'') upstream_sample MobileFirst
                          (request_with ''https://x.com'' (Some ''c@d.e''))))"
    by (simp add: request_with_def)
  moreover from t have "analyze_POST (Some ''KEY'') upstream_sample MobileFirst (request_with ''https://x.com'' None)
     = (NextResponse 400 (ErrorBody (Text required_message)), [])"
    by (simp add: request_with_def)
  moreover have "RequestBody.email \<lparr>RequestBody.url = Some ''https://x.com'', RequestBody.email = Some ''a@b.c''\<rparr>
     = Some (AnalyzeReport.email
               \<lparr>AnalyzeReport.mobile = sample_result, AnalyzeReport.desktop = sample_result,
                AnalyzeReport.url = ''https://x.com'', AnalyzeReport.email = ''a@b.c''\<rparr>)"
    using email_only_validated
      [where env = "Some ''KEY''" and up = upstream_sample and order = MobileFirst
         and b = "\<lparr>RequestBody.url = Some ''https://x.com'', RequestBody.email = Some ''a@b.c''\<rparr>"
         and st = 200
         and rep = "\<lparr>AnalyzeReport.mobile = sample_result, AnalyzeReport.desktop = sample_result,
            AnalyzeReport.url = ''https://x.com'', AnalyzeReport.email = ''a@b.c''\<rparr>"] s
    by (simp add: request_with_def)
  ultimately show ?thesis using s by blast
qed


end
